theory Spec2Isabelle
  imports Main "HOL-Library.Word"
begin

section \<open>JavaScript values\<close>

text \<open>
  A JavaScript string is a sequence of UTF-16 code units; the regular expression of
  \<open>sanitizeForId\<close> has no \<open>u\<close> flag and so works on single code units.
  \<open>js\<close> embeds an ASCII literal.
\<close>

type_synonym jstring = "16 word list"

definition js :: "string \<Rightarrow> jstring" where
  "js s = map of_char s"

text \<open>
  The values that the fields \<open>message\<close>, \<open>error\<close> and \<open>port\<close> of a response can hold.
  \<open>Num\<close> is a number that is a non-negative integer below \<open>2^53\<close> (a port number is
  one): every such integer is a number of JavaScript, and is written in decimal. \<open>Arr\<close>
  is an array. \<open>Object\<close> is an object that is no array and has no own property
  \<open>toString\<close> or \<open>valueOf\<close> (an entry of the status mapping is one), so that its
  conversion to string is the inherited one. Negative and fractional numbers are not
  values of this type.
\<close>

datatype jsval = Undefined | Null | Bool bool | Num "53 word" | Str jstring | Arr "jsval list" | Object

text \<open>The conversion to boolean that \<open>if (v)\<close> and \<open>v || w\<close> apply.\<close>

fun truthy :: "jsval \<Rightarrow> bool" where
  "truthy Undefined = False"
| "truthy Null = False"
| "truthy (Bool b) = b"
| "truthy (Num n) = (n \<noteq> 0)"
| "truthy (Str s) = (s \<noteq> [])"
| "truthy (Arr xs) = True"
| "truthy Object = True"

fun digits :: "nat \<Rightarrow> jstring" where
  "digits n = (if n < 10 then [of_nat (48 + n)] else digits (n div 10) @ [of_nat (48 + n mod 10)])"

declare digits.simps [simp del]

text \<open>\<open>Array.prototype.join\<close> with the comma.\<close>

fun join :: "jstring list \<Rightarrow> jstring" where
  "join [] = []"
| "join [s] = s"
| "join (s # t # ss) = s @ 0x2C # join (t # ss)"

text \<open>
  The conversion to string of a template literal and of \<open>new Error(v)\<close>. An array
  is the join of its elements, where \<open>undefined\<close> and \<open>null\<close> give the empty string.
\<close>

fun toString :: "jsval \<Rightarrow> jstring" where
  "toString Undefined = js ''undefined''"
| "toString Null = js ''null''"
| "toString (Bool b) = (if b then js ''true'' else js ''false'')"
| "toString (Num n) = digits (unat n)"
| "toString (Str s) = s"
| "toString (Arr xs) = join (map (\<lambda>x. if x = Undefined \<or> x = Null then [] else toString x) xs)"
| "toString Object = js ''[object Object]''"

text \<open>\<open>a || b\<close> on values.\<close>

definition or_else :: "jsval \<Rightarrow> jsval \<Rightarrow> jsval" where
  "or_else a b = (if truthy a then a else b)"

text \<open>
  Property lookup \<open>obj[key]\<close> on an object built by \<open>JSON.parse\<close>: an own property wins,
  otherwise the lookup continues in \<open>Object.prototype\<close>, whose properties are functions
  (and, for \<open>__proto__\<close>, the prototype object itself).
\<close>

definition Object_prototype :: "jstring list" where
  "Object_prototype = map js [''constructor'', ''__defineGetter__'', ''__defineSetter__'',
     ''hasOwnProperty'', ''__lookupGetter__'', ''__lookupSetter__'', ''isPrototypeOf'',
     ''propertyIsEnumerable'', ''toString'', ''valueOf'', ''__proto__'', ''toLocaleString'']"

datatype 'a property = Own 'a | Inherited | Missing

definition get :: "(jstring \<times> 'a) list \<Rightarrow> jstring \<Rightarrow> 'a property" where
  "get obj key = (case map_of obj key of Some v \<Rightarrow> Own v
     | None \<Rightarrow> if key \<in> set Object_prototype then Inherited else Missing)"

section \<open>sanitizeForId\<close>

text \<open>The character class \<open>[a-zA-Z0-9-_]\<close>.\<close>

definition id_char :: "16 word \<Rightarrow> bool" where
  "id_char c = ((0x61 \<le> c \<and> c \<le> 0x7A) \<or> (0x41 \<le> c \<and> c \<le> 0x5A) \<or> (0x30 \<le> c \<and> c \<le> 0x39)
     \<or> c = 0x2D \<or> c = 0x5F)"

text \<open>\<open>str.replace(/[^a-zA-Z0-9-_]/g, '-')\<close>\<close>

definition sanitizeForId :: "jstring \<Rightarrow> jstring" where
  "sanitizeForId str = map (\<lambda>c. if id_char c then c else 0x2D) str"

text \<open>
  Two names differ only in characters outside the class: same length, and wherever the
  code units differ, both lie outside \<open>[a-zA-Z0-9-_]\<close>.
\<close>

definition differ_only_outside :: "jstring \<Rightarrow> jstring \<Rightarrow> bool" where
  "differ_only_outside s t = list_all2 (\<lambda>c d. c = d \<or> (\<not> id_char c \<and> \<not> id_char d)) s t"

text \<open>A code unit that \<open>sanitizeForId\<close> turns into, or leaves as, a hyphen.\<close>

definition hyphened :: "16 word \<Rightarrow> bool" where
  "hyphened c = (c = 0x2D \<or> \<not> id_char c)"

section \<open>The page\<close>

text \<open>
  The document as far as the script touches it: the child nodes of \<open>#app-list\<close>, the
  notice element \<open>#message-box\<close>, and the variable \<open>draggedItem\<close>. Nodes live in a
  store and are named by references, since \<open>draggedItem\<close> keeps a node across events and
  the drop handler compares nodes by identity. The document is taken to have no element
  outside \<open>#app-list\<close> with class \<open>card\<close> or \<open>status\<close> or an id starting with \<open>card-\<close>.
\<close>

type_synonym ref = nat

datatype status_class = Status_unknown | Status_running | Status_stopped

text \<open>The three values that the script gives to \<open>className\<close> of a status element.\<close>

fun className :: "status_class \<Rightarrow> jstring" where
  "className Status_unknown = js ''status status-unknown''"
| "className Status_running = js ''status status-running''"
| "className Status_stopped = js ''status status-stopped''"

datatype pointer_events = PE_unset | PE_auto | PE_none

datatype cursor_style = Cursor_unset | Cursor_pointer | Cursor_default

text \<open>
  A card: \<open>div.card\<close> with id \<open>card-<sanitized>\<close>, the link \<open>a.app-link\<close>, the status
  element with id \<open>status-<sanitized>\<close>, and the start and stop buttons.
\<close>

record card =
  sanitized :: jstring
  data_app_name :: jstring
  cls_dragging :: bool
  cls_drag_over :: bool
  link_href :: jstring
  link_pointerEvents :: pointer_events
  link_cursor :: cursor_style
  status_textContent :: jstring
  status_className :: status_class
  start_disabled :: bool
  stop_active :: bool

datatype node = TextNode jstring | CardEl card | ParagraphEl jstring

datatype display = Display_unset | Display_none | Display_block

datatype js_error = Error jstring | TypeError jstring | SyntaxError jstring

fun message :: "js_error \<Rightarrow> jstring" where
  "message (Error m) = m"
| "message (TypeError m) = m"
| "message (SyntaxError m) = m"

text \<open>The three shapes of the \<open>options\<close> argument of \<open>fetch\<close> in the script.\<close>

datatype options = No_options | Post | Post_order "jstring list"

record state =
  hostname :: jstring
  SECRET_PATH :: jstring
  heap :: "ref \<Rightarrow> node option"
  childNodes :: "ref list"
  next_ref :: ref
  messageBox_textContent :: jstring
  messageBox_display :: display
  draggedItem :: "ref option"
  fetches :: "(jstring \<times> options) list"
  console :: "(jstring \<times> js_error) list"

definition console_error :: "state \<Rightarrow> jstring \<Rightarrow> js_error \<Rightarrow> state" where
  "console_error st label e = st\<lparr>console := console st @ [(label, e)]\<rparr>"

subsection \<open>innerHTML\<close>

text \<open>
  Reading \<open>innerHTML\<close> serialises the child nodes; assigning it detaches them and parses
  the text into new nodes, which get new references (the old nodes stay in the store, a
  variable may still hold them). Adjacent pieces of text become one text node. Serialising
  a card and parsing it again gives a card with the same attributes, classes and text.
\<close>

definition get_innerHTML :: "state \<Rightarrow> node list" where
  "get_innerHTML st = List.map_filter (heap st) (childNodes st)"

definition set_innerHTML :: "state \<Rightarrow> node list \<Rightarrow> state" where
  "set_innerHTML st ns = st\<lparr>
     heap := (\<lambda>r. if next_ref st \<le> r \<and> r < next_ref st + length ns
                  then Some (ns ! (r - next_ref st)) else heap st r),
     childNodes := [next_ref st ..< next_ref st + length ns],
     next_ref := next_ref st + length ns\<rparr>"

fun coalesce :: "node list \<Rightarrow> node list" where
  "coalesce (TextNode a # TextNode b # ns) = coalesce (TextNode (a @ b) # ns)"
| "coalesce (n # ns) = n # coalesce ns"
| "coalesce [] = []"

text \<open>\<open>appList.innerHTML += html\<close>\<close>

definition append_innerHTML :: "state \<Rightarrow> node list \<Rightarrow> state" where
  "append_innerHTML st ns = set_innerHTML st (coalesce (get_innerHTML st @ ns))"

subsection \<open>Queries\<close>

definition card_at :: "state \<Rightarrow> ref \<Rightarrow> card option" where
  "card_at st r = (case heap st r of Some (CardEl c) \<Rightarrow> Some c | _ \<Rightarrow> None)"

text \<open>\<open>document.getElementById('card-' + s)\<close>: the first card with that id, in tree order.\<close>

definition getElementById_card :: "state \<Rightarrow> jstring \<Rightarrow> ref option" where
  "getElementById_card st s =
     find (\<lambda>r. case card_at st r of Some c \<Rightarrow> sanitized c = s | None \<Rightarrow> False) (childNodes st)"

text \<open>\<open>appList.querySelectorAll('.card')\<close>\<close>

definition querySelectorAll_card :: "state \<Rightarrow> ref list" where
  "querySelectorAll_card st = filter (\<lambda>r. card_at st r \<noteq> None) (childNodes st)"

text \<open>\<open>node.dataset.appName\<close> for a card; other nodes are no cards.\<close>

fun node_name :: "node \<Rightarrow> jstring option" where
  "node_name (CardEl c) = Some (data_app_name c)"
| "node_name (TextNode t) = None"
| "node_name (ParagraphEl t) = None"

text \<open>
  \<open>[...parent.querySelectorAll('.card')].map(card => card.dataset.appName)\<close>: the names
  of the cards among the given nodes, and among the children in tree order.
\<close>

definition names_of :: "state \<Rightarrow> ref list \<Rightarrow> jstring list" where
  "names_of st rs = List.map_filter (\<lambda>r. map_option data_app_name (card_at st r)) rs"

definition card_names :: "state \<Rightarrow> jstring list" where
  "card_names st = names_of st (childNodes st)"

fun next_in :: "ref list \<Rightarrow> ref \<Rightarrow> ref option" where
  "next_in [] r = None"
| "next_in [x] r = None"
| "next_in (x # y # xs) r = (if x = r then Some y else next_in (y # xs) r)"

text \<open>\<open>node.nextSibling\<close>; a node that is not in the list has no sibling.\<close>

definition nextSibling :: "state \<Rightarrow> ref \<Rightarrow> ref option" where
  "nextSibling st r = next_in (childNodes st) r"

fun insert_at :: "ref \<Rightarrow> ref \<Rightarrow> ref list \<Rightarrow> ref list" where
  "insert_at n c [] = [n]"
| "insert_at n c (x # xs) = (if x = c then n # x # xs else x # insert_at n c xs)"

text \<open>
  \<open>parent.insertBefore(node, child)\<close> of the DOM standard on the child list: a \<open>child\<close>
  that is not a child of the parent raises \<open>NotFoundError\<close> (\<open>None\<close>); when \<open>child\<close> is
  \<open>node\<close> itself the reference is its next sibling; the node is taken out of the list and
  put before the reference, at the end when the reference is \<open>null\<close>.
\<close>

definition insertBefore :: "ref list \<Rightarrow> ref \<Rightarrow> ref option \<Rightarrow> ref list option" where
  "insertBefore cs n child = (case child of
       None \<Rightarrow> Some (remove1 n cs @ [n])
     | Some c \<Rightarrow>
         if c \<notin> set cs then None
         else (case (if c = n then next_in cs n else Some c) of
                 None \<Rightarrow> Some (remove1 n cs @ [n])
               | Some c' \<Rightarrow> Some (insert_at n c' (remove1 n cs))))"

section \<open>Responses\<close>

text \<open>
  What \<open>await fetch(endpoint, options)\<close> followed by \<open>await response.json()\<close> can give:
  \<open>fetch\<close> rejects (network failure), or there is a response with its \<open>ok\<close> flag whose
  body either fails to parse (\<open>json()\<close> rejects with a \<open>SyntaxError\<close>), or parses to
  \<open>null\<close>, or parses to another value. Of that value \<open>apiFetch\<close> reads the properties
  \<open>message\<close> and \<open>error\<close> (both \<open>undefined\<close> for a number, a string, a boolean or an
  array); the rest, typed as the endpoint's contract gives it, is \<open>content\<close>. Reading a
  property of \<open>null\<close> raises a \<open>TypeError\<close>, whose message \<open>Json_null\<close> carries as
  \<open>Not_json\<close> carries the message of the parser.
\<close>

record 'a data =
  data_message :: jsval
  data_error :: jsval
  content :: 'a

datatype 'a body = Not_json jstring | Json_null jstring | Json "'a data"

datatype 'a fetch_outcome = Network_failure jstring | Response bool "'a body"

text \<open>\<open>GET /apps\<close>: \<open>{ apps?: mapping<name, {path, port?}>, order?: sequence<name> }\<close>\<close>

record app_info =
  info_path :: jstring
  info_port :: jsval

record apps_content =
  data_apps :: "(jstring \<times> app_info) list option"
  data_order :: "jstring list option"

text \<open>
  \<open>GET /status\<close>: the entries of \<open>mapping<name, {running, port?}>\<close> in the order of
  \<open>Object.keys\<close>, each key once.
\<close>

record app_status =
  running :: bool
  port :: jsval

type_synonym status_content = "(jstring \<times> app_status) list"

section \<open>apiFetch\<close>

text \<open>
  An \<open>async\<close> function is given in two parts: what it does when called, up to its
  \<open>await\<close>, and what it does when the awaited call settles. \<open>apiFetch\<close> hides the notice
  and calls \<open>fetch\<close>; \<open>apiFetch_settle\<close> is the rest, and returns the error thrown (\<open>Inl\<close>)
  or the data (\<open>Inr\<close>).
\<close>

definition apiFetch :: "state \<Rightarrow> jstring \<Rightarrow> options \<Rightarrow> state" where
  "apiFetch st endpoint opts =
     st\<lparr>messageBox_display := Display_none, fetches := fetches st @ [(endpoint, opts)]\<rparr>"

text \<open>The \<open>catch\<close> block of \<open>apiFetch\<close>.\<close>

definition apiFetch_catch :: "state \<Rightarrow> js_error \<Rightarrow> (js_error + 'a data) \<times> state" where
  "apiFetch_catch st e =
     (Inl e, st\<lparr>messageBox_textContent := js ''Error: '' @ message e,
               messageBox_display := Display_block\<rparr>)"

definition apiFetch_settle :: "state \<Rightarrow> 'a fetch_outcome \<Rightarrow> (js_error + 'a data) \<times> state" where
  "apiFetch_settle st outcome = (case outcome of
       Network_failure m \<Rightarrow> apiFetch_catch st (TypeError m)
     | Response ok b \<Rightarrow> (case b of
           Not_json m \<Rightarrow> apiFetch_catch st (SyntaxError m)
         | Json_null m \<Rightarrow> apiFetch_catch st (TypeError m)
         | Json d \<Rightarrow>
             if \<not> ok
             then apiFetch_catch st
                    (Error (toString (or_else (data_error d) (Str (js ''An unknown error occurred.'')))))
             else (Inr d,
                   if truthy (data_message d)
                   then st\<lparr>messageBox_textContent := toString (data_message d),
                           messageBox_display := Display_block\<rparr>
                   else st)))"

section \<open>Status polling\<close>

text \<open>The body of the \<open>forEach\<close> of \<open>updateStatus\<close> on the card it found.\<close>

definition patch_card :: "jstring \<Rightarrow> app_status \<Rightarrow> card \<Rightarrow> card" where
  "patch_card host appData c =
     (if running appData
      then (let c1 = c\<lparr>status_textContent := js ''Run'', status_className := Status_running,
                       start_disabled := True, stop_active := True\<rparr>
            in if truthy (port appData)
               then c1\<lparr>link_href := js ''http://'' @ host @ js '':'' @ toString (port appData),
                       link_pointerEvents := PE_auto, link_cursor := Cursor_pointer\<rparr>
               else c1\<lparr>link_pointerEvents := PE_none, link_cursor := Cursor_default\<rparr>)
      else c\<lparr>status_textContent := js ''Stop'', status_className := Status_stopped,
              start_disabled := False, stop_active := False,
              link_href := js ''#'', link_pointerEvents := PE_none, link_cursor := Cursor_default\<rparr>)"

definition updateStatus_each :: "jstring \<times> app_status \<Rightarrow> state \<Rightarrow> state" where
  "updateStatus_each entry st = (case entry of (appName, appData) \<Rightarrow>
     (case getElementById_card st (sanitizeForId appName) of
        None \<Rightarrow> st
      | Some r \<Rightarrow> (case card_at st r of
          None \<Rightarrow> st
        | Some c \<Rightarrow> st\<lparr>heap := (heap st)(r \<mapsto> CardEl (patch_card (hostname st) appData c))\<rparr>)))"

text \<open>
  The \<open>catch\<close> block of \<open>updateStatus\<close>: \<open>document.querySelectorAll('.status')\<close> gives the
  status element of every card, since each of the three class names has the class
  \<open>status\<close>.
\<close>

definition set_unknown :: "ref \<Rightarrow> state \<Rightarrow> state" where
  "set_unknown r st = (case card_at st r of
       None \<Rightarrow> st
     | Some c \<Rightarrow> st\<lparr>heap := (heap st)(r \<mapsto>
         CardEl (c\<lparr>status_textContent := js ''Unknown'', status_className := Status_unknown\<rparr>))\<rparr>)"

definition updateStatus :: "state \<Rightarrow> state" where
  "updateStatus st = apiFetch st (js ''/status'') No_options"

definition updateStatus_settle :: "state \<Rightarrow> status_content fetch_outcome \<Rightarrow> state" where
  "updateStatus_settle st outcome = (case apiFetch_settle st outcome of
       (Inr d, st1) \<Rightarrow> fold updateStatus_each (content d) st1
     | (Inl e, st1) \<Rightarrow>
         (let st2 = console_error st1 (js ''Failed to fetch status:'') e
          in fold set_unknown (querySelectorAll_card st2) st2))"

section \<open>Rendering\<close>

text \<open>
  \<open>createAppCard\<close> puts the name into its template as it is, and \<open>innerHTML\<close> parses
  the text. The parser is modelled on two kinds of names. A name without double quote,
  ampersand, less-than sign, NUL and carriage return is read back as it is, in the
  attribute \<open>data-app-name\<close> and in the heading. A name that has such a part, then a
  double quote, then only letters and digits, ends the attribute value at the quote: the
  card has the part before the quote as \<open>dataset.appName\<close>, and the letters and digits
  with the closing quote of the template become the name of one more attribute. For
  every other name the parser is not modelled (\<open>None\<close>).
\<close>

definition plain_char :: "16 word \<Rightarrow> bool" where
  "plain_char c = (c \<noteq> 0x22 \<and> c \<noteq> 0x26 \<and> c \<noteq> 0x3C \<and> c \<noteq> 0x00 \<and> c \<noteq> 0x0D)"

definition alnum :: "16 word \<Rightarrow> bool" where
  "alnum c = ((0x61 \<le> c \<and> c \<le> 0x7A) \<or> (0x41 \<le> c \<and> c \<le> 0x5A) \<or> (0x30 \<le> c \<and> c \<le> 0x39))"

definition dataset_appName :: "jstring \<Rightarrow> jstring option" where
  "dataset_appName appName =
     (let v = takeWhile (\<lambda>c. c \<noteq> 0x22) appName;
          rest = List.drop (Suc (length v)) appName
      in if list_all plain_char v \<and> list_all alnum rest then Some v else None)"

text \<open>The card of the template, with its sanitized name and its \<open>data-app-name\<close>.\<close>

definition card_template :: "jstring \<Rightarrow> jstring \<Rightarrow> card" where
  "card_template sanitizedAppName dataAppName =
     \<lparr>sanitized = sanitizedAppName, data_app_name = dataAppName,
      cls_dragging = False, cls_drag_over = False,
      link_href = js ''#'', link_pointerEvents = PE_unset, link_cursor = Cursor_unset,
      status_textContent = js ''Unknown'', status_className = Status_unknown,
      start_disabled = False, stop_active = False\<rparr>"

text \<open>
  The nodes that the parser builds from the text of \<open>createAppCard\<close>: the card between
  the white space that starts and ends the template.
\<close>

definition createAppCard :: "jstring \<Rightarrow> app_info property \<Rightarrow> node list option" where
  "createAppCard appName appInfo = (case dataset_appName appName of
       None \<Rightarrow> None
     | Some dataAppName \<Rightarrow>
         Some [TextNode (0x0A # js ''        ''),
               CardEl (card_template (sanitizeForId appName) dataAppName),
               TextNode (0x0A # js ''    '')])"

definition placeholder :: node where
  "placeholder = ParagraphEl (js ''No applications configured. Add one above.'')"

definition updateAppList :: "state \<Rightarrow> state" where
  "updateAppList st = apiFetch st (js ''/apps'') No_options"

text \<open>
  The body of the \<open>forEach\<close> of \<open>updateAppList\<close>. The page is \<open>None\<close> once a card is to
  be parsed for a name that the model of the parser does not cover.
\<close>

definition render_each :: "(jstring \<times> app_info) list \<Rightarrow> jstring \<Rightarrow> state option \<Rightarrow> state option" where
  "render_each apps appName page = (case page of
       None \<Rightarrow> None
     | Some st \<Rightarrow> (case get apps appName of
           Missing \<Rightarrow> Some st
         | appInfo \<Rightarrow> map_option (append_innerHTML st) (createAppCard appName appInfo)))"

text \<open>\<open>data.apps || {}\<close> and \<open>data.order || []\<close>\<close>

definition apps_or_empty :: "apps_content data \<Rightarrow> (jstring \<times> app_info) list" where
  "apps_or_empty d = (case data_apps (content d) of None \<Rightarrow> [] | Some a \<Rightarrow> a)"

definition order_or_empty :: "apps_content data \<Rightarrow> jstring list" where
  "order_or_empty d = (case data_order (content d) of None \<Rightarrow> [] | Some ord \<Rightarrow> ord)"

definition updateAppList_settle :: "state \<Rightarrow> apps_content fetch_outcome \<Rightarrow> state option" where
  "updateAppList_settle st outcome = (case apiFetch_settle st outcome of
       (Inl e, st1) \<Rightarrow> Some (console_error st1 (js ''Failed to update app list:'') e)
     | (Inr d, st1) \<Rightarrow>
         (let st2 = set_innerHTML st1 [];
              apps = apps_or_empty d;
              order = order_or_empty d;
              st3 = (if length order = 0 then Some (set_innerHTML st2 [placeholder])
                     else fold (render_each apps) order (Some st2))
          in map_option updateStatus st3))"

section \<open>App control\<close>

text \<open>\<open>deleteApp\<close>; the answer to \<open>confirm\<close> is an argument.\<close>

definition deleteApp :: "state \<Rightarrow> jstring \<Rightarrow> bool \<Rightarrow> state" where
  "deleteApp st appName confirmed =
     (if \<not> confirmed then st
      else apiFetch st (js ''/'' @ SECRET_PATH st @ js ''/delete/'' @ appName) Post)"

definition deleteApp_settle :: "state \<Rightarrow> jstring \<Rightarrow> unit fetch_outcome \<Rightarrow> state" where
  "deleteApp_settle st appName outcome = (case apiFetch_settle st outcome of
       (Inr d, st1) \<Rightarrow> updateAppList st1
     | (Inl e, st1) \<Rightarrow> console_error st1 (js ''Failed to delete '' @ appName) e)"

section \<open>Drag and drop\<close>

text \<open>\<open>appList.querySelectorAll('.drag-over').forEach(el => el.classList.remove('drag-over'))\<close>\<close>

definition remove_drag_over :: "ref \<Rightarrow> state \<Rightarrow> state" where
  "remove_drag_over r st = (case card_at st r of
       None \<Rightarrow> st
     | Some c \<Rightarrow> st\<lparr>heap := (heap st)(r \<mapsto> CardEl (c\<lparr>cls_drag_over := False\<rparr>))\<rparr>)"

text \<open>
  The \<open>drop\<close> listener; \<open>closest_card\<close> is \<open>e.target.closest('.card')\<close>. An exception of
  \<open>insertBefore\<close> ends the handler where it is raised.
\<close>

definition drop_listener :: "state \<Rightarrow> ref option \<Rightarrow> state" where
  "drop_listener st closest_card = (case draggedItem st of
       None \<Rightarrow> st
     | Some d \<Rightarrow>
         (let st1 = fold remove_drag_over (childNodes st) st in
          case closest_card of
            None \<Rightarrow> st1
          | Some t \<Rightarrow>
              if t = d then st1
              else (let draggedNext = nextSibling st1 d;
                        dropTargetNext = nextSibling st1 t
                    in case insertBefore (childNodes st1) d dropTargetNext of
                         None \<Rightarrow> st1
                       | Some cs2 \<Rightarrow> (case insertBefore cs2 t draggedNext of
                           None \<Rightarrow> st1\<lparr>childNodes := cs2\<rparr>
                         | Some cs3 \<Rightarrow>
                             (let st3 = st1\<lparr>childNodes := cs3\<rparr>;
                                  newOrder = card_names st3
                              in apiFetch st3 (js ''/'' @ SECRET_PATH st3 @ js ''/save-order'')
                                   (Post_order newOrder))))))"

text \<open>The \<open>catch\<close> of the save-order call.\<close>

definition drop_listener_settle :: "state \<Rightarrow> unit fetch_outcome \<Rightarrow> state" where
  "drop_listener_settle st outcome = (case apiFetch_settle st outcome of
       (Inr d, st1) \<Rightarrow> st1
     | (Inl e, st1) \<Rightarrow> updateAppList (console_error st1 (js ''Failed to save new order:'') e))"

text \<open>The exchange of two references.\<close>

definition exchange :: "ref \<Rightarrow> ref \<Rightarrow> ref \<Rightarrow> ref" where
  "exchange x y r = (if r = x then y else if r = y then x else r)"

section \<open>Words of the specification\<close>

text \<open>
  The message that the specification gives to the error of a non-2xx response: the
  server-provided \<open>error\<close> message when present, and otherwise the fixed generic message.
\<close>

definition spec_failure_message :: "'a body \<Rightarrow> jstring" where
  "spec_failure_message b = (case b of
       Json d \<Rightarrow> (case data_error d of Str m \<Rightarrow> m | _ \<Rightarrow> js ''An unknown error occurred.'')
     | Json_null m \<Rightarrow> js ''An unknown error occurred.''
     | Not_json m \<Rightarrow> js ''An unknown error occurred.'')"

text \<open>
  The cards that the specification gives to a list: the names of \<open>order\<close> that are
  present in the app map, in the same sequence.
\<close>

definition spec_card_names :: "(jstring \<times> app_info) list \<Rightarrow> jstring list \<Rightarrow> jstring list" where
  "spec_card_names apps order = filter (\<lambda>appName. map_of apps appName \<noteq> None) order"

section \<open>Example pages\<close>

text \<open>A page before the first load, and responses of the two \<open>GET\<close> endpoints.\<close>

definition page0 :: state where
  "page0 = \<lparr>hostname = js ''localhost'', SECRET_PATH = js ''s3cret'', heap = (\<lambda>r. None),
     childNodes = [], next_ref = 0, messageBox_textContent = [],
     messageBox_display = Display_unset, draggedItem = None, fetches = [], console = []\<rparr>"

definition ok_apps :: "(jstring \<times> app_info) list \<Rightarrow> jstring list \<Rightarrow> apps_content fetch_outcome" where
  "ok_apps apps order = Response True (Json \<lparr>data_message = Undefined, data_error = Undefined,
     content = \<lparr>data_apps = Some apps, data_order = Some order\<rparr>\<rparr>)"

definition ok_status :: "status_content \<Rightarrow> status_content fetch_outcome" where
  "ok_status entries = Response True (Json \<lparr>data_message = Undefined, data_error = Undefined,
     content = entries\<rparr>)"

definition bat :: app_info where
  "bat = \<lparr>info_path = js ''run.bat'', info_port = Undefined\<rparr>"

text \<open>The page after loading the two apps \<open>a.b\<close> and \<open>a b\<close>, in this order.\<close>

definition page_ab :: state where
  "page_ab = (case updateAppList_settle (updateAppList page0)
       (ok_apps [(js ''a.b'', bat), (js ''a b'', bat)] [js ''a.b'', js ''a b'']) of
     Some st \<Rightarrow> st | None \<Rightarrow> page0)"

text \<open>The name \<open>a"b\<close>.\<close>

definition a_quote_b :: jstring where
  "a_quote_b = js ''a'' @ [0x22] @ js ''b''"

text \<open>The same page while the card of \<open>a.b\<close> is dragged.\<close>

definition page_dragging :: state where
  "page_dragging = page_ab\<lparr>draggedItem := Some 4\<rparr>"

text \<open>Status responses, and the page after a poll that reports \<open>a.b\<close> running.\<close>

definition a_b_running :: status_content where
  "a_b_running = [(js ''a.b'', \<lparr>running = True, port = Num 8080\<rparr>)]"

definition a_b_both :: status_content where
  "a_b_both = [(js ''a.b'', \<lparr>running = True, port = Num 8080\<rparr>),
               (js ''a b'', \<lparr>running = False, port = Undefined\<rparr>)]"

definition a_space_b_running :: status_content where
  "a_space_b_running = [(js ''a b'', \<lparr>running = True, port = Num 8080\<rparr>)]"

definition a_b_zero_then_a_space_b :: status_content where
  "a_b_zero_then_a_space_b = [(js ''a.b'', \<lparr>running = True, port = Num 0\<rparr>),
                              (js ''a b'', \<lparr>running = True, port = Num 8080\<rparr>)]"

definition page_polled :: state where
  "page_polled = updateStatus_settle (updateStatus page_ab) (ok_status a_b_running)"

section \<open>Lemmas\<close>

subsection \<open>One character of sanitizeForId\<close>

lemma sanitize_char_eq:
  "((if id_char c then c else 0x2D) = (if id_char d then d else 0x2D)) = (c = d \<or> (hyphened c \<and> hyphened d))"
  by (auto simp: hyphened_def id_char_def)

subsection \<open>Failed fetches and the status indicators\<close>

lemma card_at_set_unknown:
  "card_at (set_unknown r st) r' =
     (if r' = r then map_option (\<lambda>c. c\<lparr>status_textContent := js ''Unknown'', status_className := Status_unknown\<rparr>) (card_at st r)
      else card_at st r')"
  by (auto simp: set_unknown_def card_at_def split: option.splits node.splits)

lemma card_at_fold_set_unknown:
  "card_at (fold set_unknown rs st) r =
     (if r \<in> set rs then map_option (\<lambda>c. c\<lparr>status_textContent := js ''Unknown'', status_className := Status_unknown\<rparr>) (card_at st r)
      else card_at st r)"
proof (induction rs arbitrary: st)
  case Nil
  show ?case by simp
next
  case (Cons a rs)
  show ?case
    by (cases "card_at st r") (auto simp: Cons.IH card_at_set_unknown)
qed

lemma childNodes_set_unknown: "childNodes (set_unknown r st) = childNodes st"
  by (simp add: set_unknown_def split: option.splits)

lemma childNodes_fold_set_unknown: "childNodes (fold set_unknown rs st) = childNodes st"
  by (induction rs arbitrary: st) (simp_all add: childNodes_set_unknown)

subsection \<open>Two calls of insertBefore exchange two children\<close>

lemma next_in_append:
  "x \<notin> set P \<Longrightarrow> next_in (P @ x # R) x = (case R of [] \<Rightarrow> None | r # _ \<Rightarrow> Some r)"
proof (induction P)
  case Nil
  show ?case by (cases R) simp_all
next
  case (Cons p P)
  then show ?case by (cases P) auto
qed

lemma insert_at_append:
  "c \<notin> set P \<Longrightarrow> insert_at n c (P @ c # R) = P @ n # c # R"
  by (induction P) auto

lemma insertBefore_place:
  assumes rem: "remove1 n cs = P @ R"
    and dist: "distinct (P @ R)"
    and ref: "case R of [] \<Rightarrow> True | r # _ \<Rightarrow> r \<noteq> n \<and> r \<in> set cs"
  shows "insertBefore cs n (case R of [] \<Rightarrow> None | r # _ \<Rightarrow> Some r) = Some (P @ n # R)"
proof (cases R)
  case Nil
  then show ?thesis using rem by (simp add: insertBefore_def)
next
  case (Cons r R')
  then have "r \<notin> set P" using dist by auto
  then show ?thesis using Cons rem ref by (simp add: insertBefore_def insert_at_append)
qed

lemma insertBefore_self:
  assumes dist: "distinct cs" and mem: "n \<in> set cs"
  shows "insertBefore cs n (Some n) = Some cs"
proof -
  obtain P R where cs: "cs = P @ n # R" and nP: "n \<notin> set P"
    using mem by (meson split_list_first)
  have nx: "next_in cs n = (case R of [] \<Rightarrow> None | r # _ \<Rightarrow> Some r)"
    using cs nP by (simp add: next_in_append)
  have rem: "remove1 n cs = P @ R" using cs nP by (simp add: remove1_append)
  show ?thesis
  proof (cases R)
    case Nil
    then show ?thesis using nx rem cs mem by (simp add: insertBefore_def)
  next
    case (Cons r R')
    then have "r \<notin> set P" using dist cs by auto
    then show ?thesis using Cons nx rem cs mem by (simp add: insertBefore_def insert_at_append)
  qed
qed

lemma map_exchange_id: "x \<notin> set A \<Longrightarrow> y \<notin> set A \<Longrightarrow> map (exchange x y) A = A"
  by (induction A) (auto simp: exchange_def)

lemma insertBefore_swap_forward:
  assumes dist: "distinct (A @ d # B @ t # C)"
  shows "\<exists>cs2. insertBefore (A @ d # B @ t # C) d (next_in (A @ d # B @ t # C) t) = Some cs2
     \<and> insertBefore cs2 t (next_in (A @ d # B @ t # C) d) = Some (A @ t # B @ d # C)"
proof -
  let ?cs = "A @ d # B @ t # C"
  have nt: "next_in ?cs t = (case C of [] \<Rightarrow> None | r # _ \<Rightarrow> Some r)"
    using dist next_in_append [of t "A @ d # B" C] by simp
  have nd: "next_in ?cs d = Some (hd (B @ [t]))"
    using dist next_in_append [of d A "B @ t # C"] by (cases B) simp_all
  have s1: "insertBefore ?cs d (case C of [] \<Rightarrow> None | r # _ \<Rightarrow> Some r) = Some ((A @ B @ [t]) @ d # C)"
  proof (rule insertBefore_place)
    show "remove1 d ?cs = (A @ B @ [t]) @ C" using dist by (simp add: remove1_append)
    show "distinct ((A @ B @ [t]) @ C)" using dist by auto
    show "case C of [] \<Rightarrow> True | r # _ \<Rightarrow> r \<noteq> d \<and> r \<in> set ?cs"
      using dist by (cases C) auto
  qed
  have s2: "insertBefore (A @ B @ t # d # C) t (Some (hd (B @ [t]))) = Some (A @ t # B @ d # C)"
  proof (cases B)
    case Nil
    have "insertBefore (A @ t # d # C) t (Some t) = Some (A @ t # d # C)"
      using dist by (intro insertBefore_self) auto
    then show ?thesis using Nil by simp
  next
    case (Cons b B')
    have "insertBefore (A @ B @ t # d # C) t (case B @ d # C of [] \<Rightarrow> None | r # _ \<Rightarrow> Some r)
        = Some (A @ t # (B @ d # C))"
    proof (rule insertBefore_place)
      show "remove1 t (A @ B @ t # d # C) = A @ B @ d # C"
        using dist remove1_append [of t "A @ B" "t # d # C"] by simp
      show "distinct (A @ B @ d # C)" using dist by auto
      show "case B @ d # C of [] \<Rightarrow> True | r # _ \<Rightarrow> r \<noteq> t \<and> r \<in> set (A @ B @ t # d # C)"
        using dist Cons by auto
    qed
    then show ?thesis using Cons by simp
  qed
  show ?thesis using nt nd s1 s2 by simp
qed

lemma insertBefore_swap_backward:
  assumes dist: "distinct (A @ t # B @ d # C)"
  shows "\<exists>cs2. insertBefore (A @ t # B @ d # C) d (next_in (A @ t # B @ d # C) t) = Some cs2
     \<and> insertBefore cs2 t (next_in (A @ t # B @ d # C) d) = Some (A @ d # B @ t # C)"
proof -
  let ?cs = "A @ t # B @ d # C"
  have nd: "next_in ?cs d = (case C of [] \<Rightarrow> None | r # _ \<Rightarrow> Some r)"
    using dist next_in_append [of d "A @ t # B" C] by simp
  have nt: "next_in ?cs t = Some (hd (B @ [d]))"
    using dist next_in_append [of t A "B @ d # C"] by (cases B) simp_all
  have s1: "insertBefore ?cs d (Some (hd (B @ [d]))) = Some (A @ t # d # B @ C)"
  proof (cases B)
    case Nil
    have "insertBefore (A @ t # d # C) d (Some d) = Some (A @ t # d # C)"
      using dist by (intro insertBefore_self) auto
    then show ?thesis using Nil by simp
  next
    case (Cons b B')
    have "insertBefore ?cs d (case B @ C of [] \<Rightarrow> None | r # _ \<Rightarrow> Some r)
        = Some ((A @ [t]) @ d # (B @ C))"
    proof (rule insertBefore_place)
      show "remove1 d ?cs = (A @ [t]) @ B @ C"
        using dist remove1_append [of d "A @ t # B" "d # C"] by simp
      show "distinct ((A @ [t]) @ B @ C)" using dist by auto
      show "case B @ C of [] \<Rightarrow> True | r # _ \<Rightarrow> r \<noteq> d \<and> r \<in> set ?cs"
        using dist Cons by auto
    qed
    then show ?thesis using Cons by simp
  qed
  have s2: "insertBefore (A @ t # d # B @ C) t (case C of [] \<Rightarrow> None | r # _ \<Rightarrow> Some r)
      = Some ((A @ d # B) @ t # C)"
  proof (rule insertBefore_place)
    show "remove1 t (A @ t # d # B @ C) = (A @ d # B) @ C" using dist by (simp add: remove1_append)
    show "distinct ((A @ d # B) @ C)" using dist by auto
    show "case C of [] \<Rightarrow> True | r # _ \<Rightarrow> r \<noteq> t \<and> r \<in> set (A @ t # d # B @ C)"
      using dist by (cases C) auto
  qed
  show ?thesis using nt nd s1 s2 by simp
qed

lemma insertBefore_swap:
  assumes dist: "distinct cs" and d: "d \<in> set cs" and t: "t \<in> set cs" and neq: "d \<noteq> t"
  shows "\<exists>cs2. insertBefore cs d (next_in cs t) = Some cs2
     \<and> insertBefore cs2 t (next_in cs d) = Some (map (exchange d t) cs)"
proof -
  obtain A R where cs: "cs = A @ d # R" using d by (meson split_list)
  have "t \<in> set A \<or> t \<in> set R" using t neq cs by auto
  then show ?thesis
  proof
    assume "t \<in> set R"
    then obtain B C where R: "R = B @ t # C" by (meson split_list)
    have dist': "distinct (A @ d # B @ t # C)" using dist cs R by simp
    have "map (exchange d t) cs = A @ t # B @ d # C"
      using dist' by (simp add: cs R map_exchange_id) (simp add: exchange_def)
    then show ?thesis using insertBefore_swap_forward [OF dist'] cs R by simp
  next
    assume "t \<in> set A"
    then obtain A' B where A: "A = A' @ t # B" by (meson split_list)
    have dist': "distinct (A' @ t # B @ d # R)" using dist cs A by simp
    have "map (exchange d t) cs = A' @ d # B @ t # R"
      using dist' by (simp add: cs A map_exchange_id) (simp add: exchange_def)
    then show ?thesis using insertBefore_swap_backward [OF dist'] cs A by simp
  qed
qed

subsection \<open>The drop handler\<close>

lemma card_at_remove_drag_over:
  "card_at (remove_drag_over r st) r' =
     (if r' = r then map_option (\<lambda>c. c\<lparr>cls_drag_over := False\<rparr>) (card_at st r) else card_at st r')"
  by (auto simp: remove_drag_over_def card_at_def split: option.splits node.splits)

lemma card_at_fold_remove_drag_over:
  "card_at (fold remove_drag_over rs st) r =
     (if r \<in> set rs then map_option (\<lambda>c. c\<lparr>cls_drag_over := False\<rparr>) (card_at st r) else card_at st r)"
proof (induction rs arbitrary: st)
  case Nil
  show ?case by simp
next
  case (Cons a rs)
  show ?case
    by (cases "card_at st r") (auto simp: Cons.IH card_at_remove_drag_over)
qed

lemma frame_remove_drag_over:
  "childNodes (remove_drag_over r st) = childNodes st \<and> draggedItem (remove_drag_over r st) = draggedItem st
   \<and> SECRET_PATH (remove_drag_over r st) = SECRET_PATH st \<and> fetches (remove_drag_over r st) = fetches st"
  by (simp add: remove_drag_over_def split: option.splits)

lemma frame_fold_remove_drag_over:
  "childNodes (fold remove_drag_over rs st) = childNodes st \<and> draggedItem (fold remove_drag_over rs st) = draggedItem st
   \<and> SECRET_PATH (fold remove_drag_over rs st) = SECRET_PATH st \<and> fetches (fold remove_drag_over rs st) = fetches st"
  by (induction rs arbitrary: st) (simp_all add: frame_remove_drag_over)

lemma is_card_fold_remove_drag_over:
  "(card_at (fold remove_drag_over rs st) r = None) = (card_at st r = None)"
  by (simp add: card_at_fold_remove_drag_over)

lemma name_fold_remove_drag_over:
  "map_option data_app_name (card_at (fold remove_drag_over rs st) r) = map_option data_app_name (card_at st r)"
  by (cases "card_at st r") (simp_all add: card_at_fold_remove_drag_over)

lemma card_at_childNodes_update: "card_at (st\<lparr>childNodes := cs\<rparr>) r = card_at st r"
  by (simp add: card_at_def)

lemma names_of_cong:
  "(\<And>r. map_option data_app_name (card_at st' r) = map_option data_app_name (card_at st r))
   \<Longrightarrow> names_of st' rs = names_of st rs"
  by (simp add: names_of_def)

lemma filter_exchange_others:
  "filter (\<lambda>r. r \<noteq> x \<and> r \<noteq> y) (map (exchange x y) cs) = filter (\<lambda>r. r \<noteq> x \<and> r \<noteq> y) cs"
  by (induction cs) (auto simp: exchange_def)

lemma filter_exchange_cards:
  assumes "P x" and "P y"
  shows "filter P (map (exchange x y) cs) = map (exchange x y) (filter P cs)"
  using assms by (induction cs) (auto simp: exchange_def)

lemma drop_result:
  assumes dist: "distinct (childNodes st)" and drag: "draggedItem st = Some x"
    and x: "x \<in> set (childNodes st)" and y: "y \<in> set (childNodes st)" and neq: "x \<noteq> y"
  shows "drop_listener st (Some y) =
     apiFetch ((fold remove_drag_over (childNodes st) st)\<lparr>childNodes := map (exchange x y) (childNodes st)\<rparr>)
       (js ''/'' @ SECRET_PATH st @ js ''/save-order'')
       (Post_order (names_of st (map (exchange x y) (childNodes st))))"
proof -
  let ?st1 = "fold remove_drag_over (childNodes st) st"
  obtain cs2 where s1: "insertBefore (childNodes st) x (next_in (childNodes st) y) = Some cs2"
    and s2: "insertBefore cs2 y (next_in (childNodes st) x) = Some (map (exchange x y) (childNodes st))"
    using insertBefore_swap [OF dist x y neq] by blast
  have names: "card_names (?st1\<lparr>childNodes := map (exchange x y) (childNodes st)\<rparr>)
      = names_of st (map (exchange x y) (childNodes st))"
    unfolding card_names_def
    by (simp, rule names_of_cong) (simp add: card_at_childNodes_update name_fold_remove_drag_over)
  show ?thesis
    using drag neq s1 s2 names
    by (simp add: drop_listener_def Let_def nextSibling_def frame_fold_remove_drag_over)
qed

subsection \<open>The page with two cards\<close>

lemmas page_defs = page0_def ok_apps_def ok_status_def bat_def page_ab_def updateAppList_settle_def
  updateAppList_def apiFetch_def apiFetch_settle_def apiFetch_catch_def set_innerHTML_def
  append_innerHTML_def get_innerHTML_def render_each_def get_def createAppCard_def
  apps_or_empty_def order_or_empty_def dataset_appName_def plain_char_def alnum_def
  updateStatus_def Let_def List.map_filter_def js_def sanitizeForId_def id_char_def
  Object_prototype_def

lemma childNodes_page_ab: "childNodes page_ab = [3, 4, 5, 6, 7]"
  by (simp add: page_defs)

lemma cards_page_ab:
  "card_at page_ab 3 = None \<and> card_at page_ab 4 = Some (card_template (js ''a-b'') (js ''a.b''))
   \<and> card_at page_ab 5 = None \<and> card_at page_ab 6 = Some (card_template (js ''a-b'') (js ''a b''))
   \<and> card_at page_ab 7 = None"
  by (simp add: page_defs card_at_def card_template_def)

lemma env_page_ab: "hostname page_ab = js ''localhost'' \<and> SECRET_PATH page_ab = js ''s3cret''
   \<and> fetches page_ab = [(js ''/apps'', No_options), (js ''/status'', No_options)]"
  by (simp add: page_defs)

subsection \<open>A falsy port\<close>

lemma patch_card_falsy_port:
  assumes "running a" and "\<not> truthy (port a)"
  shows "patch_card host a c = patch_card host (a\<lparr>port := Undefined\<rparr>) c"
  using assms by (simp add: patch_card_def)

lemma updateStatus_each_falsy_port:
  assumes "running a" and "\<not> truthy (port a)"
  shows "updateStatus_each (k, a) st = updateStatus_each (k, a\<lparr>port := Undefined\<rparr>) st"
  by (simp add: updateStatus_each_def patch_card_falsy_port [OF assms] split: option.splits)

subsection \<open>A successful status poll\<close>

lemma getElementById_card_iff:
  "getElementById_card st s = find (\<lambda>r. map_option sanitized (card_at st r) = Some s) (childNodes st)"
proof -
  have "(\<lambda>r. case card_at st r of Some c \<Rightarrow> sanitized c = s | None \<Rightarrow> False)
      = (\<lambda>r. map_option sanitized (card_at st r) = Some s)"
    by (auto split: option.splits)
  then show ?thesis by (simp add: getElementById_card_def)
qed

lemma getElementById_card_cong:
  assumes "childNodes st' = childNodes st"
    and "\<And>r. map_option sanitized (card_at st' r) = map_option sanitized (card_at st r)"
  shows "getElementById_card st' s = getElementById_card st s"
  using assms by (simp add: getElementById_card_iff)

lemma getElementById_card_Some:
  assumes "getElementById_card st s = Some r"
  shows "r \<in> set (childNodes st) \<and> map_option sanitized (card_at st r) = Some s"
  using assms by (auto simp: getElementById_card_iff find_Some_iff)

lemma sanitized_patch_card: "sanitized (patch_card host a c) = sanitized c"
  by (simp add: patch_card_def Let_def)

lemma card_at_updateStatus_each:
  "card_at (updateStatus_each (k, a) st) r =
     (if getElementById_card st (sanitizeForId k) = Some r
      then map_option (patch_card (hostname st) a) (card_at st r) else card_at st r)"
  by (auto simp: updateStatus_each_def card_at_def split: option.splits node.splits)

lemma heap_updateStatus_each:
  "getElementById_card st (sanitizeForId k) \<noteq> Some r \<Longrightarrow> heap (updateStatus_each (k, a) st) r = heap st r"
  by (auto simp: updateStatus_each_def split: option.splits)

lemma frame_updateStatus_each:
  "childNodes (updateStatus_each e st) = childNodes st \<and> hostname (updateStatus_each e st) = hostname st
   \<and> draggedItem (updateStatus_each e st) = draggedItem st \<and> fetches (updateStatus_each e st) = fetches st
   \<and> console (updateStatus_each e st) = console st
   \<and> messageBox_textContent (updateStatus_each e st) = messageBox_textContent st
   \<and> messageBox_display (updateStatus_each e st) = messageBox_display st"
  by (cases e) (simp add: updateStatus_each_def split: option.splits)

lemma getElementById_updateStatus_each:
  "getElementById_card (updateStatus_each e st) s = getElementById_card st s"
proof (rule getElementById_card_cong)
  show "childNodes (updateStatus_each e st) = childNodes st" by (simp add: frame_updateStatus_each)
  show "map_option sanitized (card_at (updateStatus_each e st) r) = map_option sanitized (card_at st r)" for r
    by (cases e; cases "card_at st r") (simp_all add: card_at_updateStatus_each sanitized_patch_card)
qed

lemma frame_fold_updateStatus_each:
  "childNodes (fold updateStatus_each es st) = childNodes st \<and> hostname (fold updateStatus_each es st) = hostname st
   \<and> draggedItem (fold updateStatus_each es st) = draggedItem st \<and> fetches (fold updateStatus_each es st) = fetches st
   \<and> console (fold updateStatus_each es st) = console st
   \<and> messageBox_textContent (fold updateStatus_each es st) = messageBox_textContent st
   \<and> messageBox_display (fold updateStatus_each es st) = messageBox_display st"
  by (induction es arbitrary: st) (simp_all add: frame_updateStatus_each)

lemma getElementById_fold_updateStatus_each:
  "getElementById_card (fold updateStatus_each es st) s = getElementById_card st s"
  by (induction es arbitrary: st) (simp_all add: getElementById_updateStatus_each)

lemma heap_fold_updateStatus_each:
  assumes "\<And>k. k \<in> set (map fst es) \<Longrightarrow> getElementById_card st (sanitizeForId k) \<noteq> Some r"
  shows "heap (fold updateStatus_each es st) r = heap st r"
  using assms
proof (induction es arbitrary: st)
  case Nil
  show ?case by simp
next
  case (Cons e es)
  obtain k a where e: "e = (k, a)" by (cases e)
  have "heap (fold updateStatus_each es (updateStatus_each e st)) r = heap (updateStatus_each e st) r"
    by (rule Cons.IH) (simp add: getElementById_updateStatus_each Cons.prems)
  also have "\<dots> = heap st r"
    unfolding e by (rule heap_updateStatus_each) (simp add: Cons.prems e)
  finally show ?case by simp
qed

lemma card_at_fold_updateStatus_each_other:
  assumes "\<And>k. k \<in> set (map fst es) \<Longrightarrow> getElementById_card st (sanitizeForId k) \<noteq> Some r"
  shows "card_at (fold updateStatus_each es st) r = card_at st r"
  using heap_fold_updateStatus_each [OF assms] by (simp add: card_at_def)

lemma card_at_fold_updateStatus_each_hit:
  assumes found: "getElementById_card st (sanitizeForId k) = Some r"
    and card: "card_at st r = Some c"
    and others: "\<And>k'. k' \<in> set (map fst (es1 @ es2)) \<Longrightarrow> sanitizeForId k' \<noteq> sanitizeForId k"
  shows "card_at (fold updateStatus_each (es1 @ (k, a) # es2) st) r = Some (patch_card (hostname st) a c)"
proof -
  have san: "sanitized c = sanitizeForId k"
    using getElementById_card_Some [OF found] card by simp
  have miss: "getElementById_card st' (sanitizeForId k') \<noteq> Some r"
    if k': "k' \<in> set (map fst (es1 @ es2))"
      and st': "map_option sanitized (card_at st' r) = Some (sanitizeForId k)" for st' k'
  proof
    assume "getElementById_card st' (sanitizeForId k') = Some r"
    then have "map_option sanitized (card_at st' r) = Some (sanitizeForId k')"
      by (simp add: getElementById_card_Some)
    then show False using st' others [OF k'] by simp
  qed
  let ?st1 = "fold updateStatus_each es1 st"
  let ?st2 = "updateStatus_each (k, a) ?st1"
  have c1: "card_at ?st1 r = Some c"
    using card_at_fold_updateStatus_each_other [of es1 st r] miss [of _ st] card san by simp
  have f1: "getElementById_card ?st1 (sanitizeForId k) = Some r"
    by (simp add: getElementById_fold_updateStatus_each found)
  have c2: "card_at ?st2 r = Some (patch_card (hostname st) a c)"
    by (simp add: card_at_updateStatus_each f1 c1 frame_fold_updateStatus_each)
  have "card_at (fold updateStatus_each es2 ?st2) r = card_at ?st2 r"
  proof (rule card_at_fold_updateStatus_each_other)
    fix k' assume "k' \<in> set (map fst es2)"
    then show "getElementById_card ?st2 (sanitizeForId k') \<noteq> Some r"
      using miss [of k' ?st2] c2 san by (simp add: sanitized_patch_card)
  qed
  then show ?thesis using c2 by simp
qed

lemma card_at_fold_updateStatus_each_last:
  assumes found: "getElementById_card st (sanitizeForId k) = Some r"
    and later: "\<And>k'. k' \<in> set (map fst es2) \<Longrightarrow> sanitizeForId k' \<noteq> sanitizeForId k"
  shows "\<exists>c. card_at (fold updateStatus_each (es1 @ (k, a) # es2) st) r = Some (patch_card (hostname st) a c)"
proof -
  let ?st1 = "fold updateStatus_each es1 st"
  have f1: "getElementById_card ?st1 (sanitizeForId k) = Some r"
    by (simp add: getElementById_fold_updateStatus_each found)
  then obtain c where c: "card_at ?st1 r = Some c"
    using getElementById_card_Some [OF f1] by (cases "card_at ?st1 r") simp_all
  have "card_at (fold updateStatus_each ([] @ (k, a) # es2) ?st1) r = Some (patch_card (hostname ?st1) a c)"
    by (rule card_at_fold_updateStatus_each_hit [OF f1 c]) (simp add: later)
  then show ?thesis by (auto simp: frame_fold_updateStatus_each)
qed

lemma apiFetch_settle_dom:
  "heap (snd (apiFetch_settle st outcome)) = heap st
   \<and> childNodes (snd (apiFetch_settle st outcome)) = childNodes st
   \<and> next_ref (snd (apiFetch_settle st outcome)) = next_ref st
   \<and> hostname (snd (apiFetch_settle st outcome)) = hostname st
   \<and> SECRET_PATH (snd (apiFetch_settle st outcome)) = SECRET_PATH st
   \<and> draggedItem (snd (apiFetch_settle st outcome)) = draggedItem st
   \<and> fetches (snd (apiFetch_settle st outcome)) = fetches st
   \<and> console (snd (apiFetch_settle st outcome)) = console st"
  by (simp add: apiFetch_settle_def apiFetch_catch_def split: fetch_outcome.splits body.splits)

lemma card_at_apiFetch_settle: "card_at (snd (apiFetch_settle st outcome)) r = card_at st r"
  by (simp add: card_at_def apiFetch_settle_dom)

lemma getElementById_apiFetch_settle:
  "getElementById_card (snd (apiFetch_settle st outcome)) s = getElementById_card st s"
  by (rule getElementById_card_cong) (simp_all add: apiFetch_settle_dom card_at_apiFetch_settle)

lemma updateStatus_settle_ok:
  "updateStatus_settle st (Response True (Json d))
     = fold updateStatus_each (content d) (snd (apiFetch_settle st (Response True (Json d))))"
  by (simp add: updateStatus_settle_def apiFetch_settle_def)

subsection \<open>Rendering the list\<close>

lemma get_innerHTML_set_innerHTML: "get_innerHTML (set_innerHTML st ns) = ns"
proof -
  let ?n = "next_ref st"
  let ?h = "heap (set_innerHTML st ns)"
  have h: "?h r = Some (ns ! (r - ?n))" if "r \<in> set [?n ..< ?n + length ns]" for r
    using that by (simp add: set_innerHTML_def)
  have "List.map_filter ?h [?n ..< ?n + length ns] = map (\<lambda>r. ns ! (r - ?n)) [?n ..< ?n + length ns]"
    unfolding List.map_filter_def using h by (auto intro!: map_cong filter_True)
  also have "\<dots> = map (\<lambda>r. ns ! (r - ?n)) (map (\<lambda>i. i + ?n) [0 ..< length ns])"
    by (simp only: map_add_upt add.commute [of ?n])
  also have "\<dots> = map (\<lambda>i. ns ! i) [0 ..< length ns]"
    by (simp add: o_def)
  also have "\<dots> = ns" by (rule map_nth)
  finally show ?thesis by (simp add: get_innerHTML_def set_innerHTML_def)
qed

lemma names_of_map_filter:
  "names_of st rs = List.map_filter node_name (List.map_filter (heap st) rs)"
proof (induction rs)
  case Nil
  show ?case by (simp add: names_of_def List.map_filter_def)
next
  case (Cons r rs)
  have "names_of st (r # rs) = (case map_option data_app_name (card_at st r) of None \<Rightarrow> [] | Some n \<Rightarrow> [n]) @ names_of st rs"
    by (simp add: names_of_def List.map_filter_def split: option.splits)
  moreover have "List.map_filter node_name (List.map_filter (heap st) (r # rs))
      = (case map_option data_app_name (card_at st r) of None \<Rightarrow> [] | Some n \<Rightarrow> [n])
        @ List.map_filter node_name (List.map_filter (heap st) rs)"
    by (cases "heap st r") (auto simp: List.map_filter_def card_at_def split: node.splits)
  ultimately show ?case using Cons.IH by simp
qed

lemma card_names_innerHTML: "card_names st = List.map_filter node_name (get_innerHTML st)"
  by (simp add: card_names_def get_innerHTML_def names_of_map_filter)

lemma names_coalesce: "List.map_filter node_name (coalesce ns) = List.map_filter node_name ns"
  by (induction ns rule: coalesce.induct) (simp_all add: List.map_filter_def)

lemma dataset_appName_plain:
  assumes "list_all plain_char appName"
  shows "dataset_appName appName = Some appName"
proof -
  have "\<forall>c \<in> set appName. c \<noteq> 0x22"
    using assms by (auto simp: list_all_iff plain_char_def)
  then have eq: "takeWhile (\<lambda>c. c \<noteq> 0x22) appName = appName"
    by (simp add: takeWhile_eq_all_conv)
  show ?thesis unfolding dataset_appName_def Let_def eq using assms by simp
qed

lemma map_filter_dataset_appName_plain:
  "\<forall>appName \<in> set names. list_all plain_char appName
   \<Longrightarrow> List.map_filter dataset_appName names = names"
  by (induction names) (simp_all add: List.map_filter_def dataset_appName_plain)

lemma names_createAppCard:
  assumes "dataset_appName appName = Some v"
  shows "\<exists>ns. createAppCard appName appInfo = Some ns \<and> List.map_filter node_name ns = [v]"
  using assms by (simp add: createAppCard_def card_template_def List.map_filter_def)

lemma map_filter_append: "List.map_filter f (xs @ ys) = List.map_filter f xs @ List.map_filter f ys"
  by (simp add: List.map_filter_def)

lemma card_names_append_innerHTML:
  "List.map_filter node_name ns = [v] \<Longrightarrow> card_names (append_innerHTML st ns) = card_names st @ [v]"
  by (simp add: card_names_innerHTML append_innerHTML_def get_innerHTML_set_innerHTML
        names_coalesce map_filter_append)

lemma render_each_Missing: "get apps appName = Missing \<Longrightarrow> render_each apps appName (Some st) = Some st"
  by (simp add: render_each_def)

lemma render_each_card:
  assumes "get apps appName \<noteq> Missing" and "dataset_appName appName = Some v"
  shows "\<exists>st'. render_each apps appName (Some st) = Some st' \<and> card_names st' = card_names st @ [v]"
proof -
  obtain ns where ns: "createAppCard appName (get apps appName) = Some ns"
    and v: "List.map_filter node_name ns = [v]"
    using names_createAppCard [OF assms(2)] by blast
  have "render_each apps appName (Some st) = Some (append_innerHTML st ns)"
    using assms(1) ns by (cases "get apps appName") (simp_all add: render_each_def)
  then show ?thesis using v by (simp add: card_names_append_innerHTML)
qed

lemma card_names_fold_render_each:
  assumes "\<forall>appName \<in> set order. get apps appName \<noteq> Missing \<longrightarrow> dataset_appName appName \<noteq> None"
  shows "\<exists>st'. fold (render_each apps) order (Some st) = Some st'
    \<and> card_names st' = card_names st
        @ List.map_filter dataset_appName (filter (\<lambda>appName. get apps appName \<noteq> Missing) order)"
  using assms
proof (induction order arbitrary: st)
  case Nil
  show ?case by (simp add: List.map_filter_def)
next
  case (Cons appName order)
  show ?case
  proof (cases "get apps appName = Missing")
    case True
    then show ?thesis using Cons.IH [of st] Cons.prems by (simp add: render_each_Missing)
  next
    case False
    then obtain v where v: "dataset_appName appName = Some v" using Cons.prems by auto
    obtain st1 where st1: "render_each apps appName (Some st) = Some st1"
      and n1: "card_names st1 = card_names st @ [v]"
      using render_each_card [OF False v] by blast
    obtain st' where "fold (render_each apps) order (Some st1) = Some st'"
      and "card_names st' = card_names st1
        @ List.map_filter dataset_appName (filter (\<lambda>appName. get apps appName \<noteq> Missing) order)"
      using Cons.IH [of st1] Cons.prems by auto
    then show ?thesis using False v st1 n1 by (simp add: List.map_filter_def)
  qed
qed

lemma card_names_apiFetch: "card_names (apiFetch st endpoint opts) = card_names st"
  unfolding card_names_def by (simp add: apiFetch_def, rule names_of_cong) (simp add: card_at_def)

lemma updateAppList_settle_ok:
  "updateAppList_settle st (Response True (Json d)) =
     map_option updateStatus
       (if order_or_empty d = []
        then Some (set_innerHTML (set_innerHTML (snd (apiFetch_settle st (Response True (Json d)))) []) [placeholder])
        else fold (render_each (apps_or_empty d)) (order_or_empty d)
               (Some (set_innerHTML (snd (apiFetch_settle st (Response True (Json d)))) [])))"
  by (simp add: updateAppList_settle_def apiFetch_settle_def Let_def)

lemma card_names_updateAppList_settle:
  assumes "\<forall>appName \<in> set (order_or_empty d).
      get (apps_or_empty d) appName \<noteq> Missing \<longrightarrow> dataset_appName appName \<noteq> None"
  shows "map_option card_names (updateAppList_settle st (Response True (Json d)))
     = Some (List.map_filter dataset_appName
         (filter (\<lambda>appName. get (apps_or_empty d) appName \<noteq> Missing) (order_or_empty d)))"
proof (cases "order_or_empty d = []")
  case True
  then show ?thesis
    by (simp add: updateAppList_settle_ok updateStatus_def card_names_apiFetch)
       (simp add: card_names_innerHTML get_innerHTML_set_innerHTML List.map_filter_def placeholder_def)
next
  case False
  let ?st2 = "set_innerHTML (snd (apiFetch_settle st (Response True (Json d)))) []"
  obtain st' where f: "fold (render_each (apps_or_empty d)) (order_or_empty d) (Some ?st2) = Some st'"
    and n: "card_names st' = card_names ?st2
        @ List.map_filter dataset_appName
            (filter (\<lambda>appName. get (apps_or_empty d) appName \<noteq> Missing) (order_or_empty d))"
    using card_names_fold_render_each [OF assms, of ?st2] by blast
  have "card_names ?st2 = []"
    by (simp add: card_names_innerHTML get_innerHTML_set_innerHTML List.map_filter_def)
  then show ?thesis
    using False f n by (simp add: updateAppList_settle_ok updateStatus_def card_names_apiFetch)
qed

lemma get_innerHTML_apiFetch: "get_innerHTML (apiFetch st endpoint opts) = get_innerHTML st"
  by (simp add: get_innerHTML_def apiFetch_def)

lemma innerHTML_updateAppList_settle_empty:
  "order_or_empty d = [] \<Longrightarrow>
   map_option get_innerHTML (updateAppList_settle st (Response True (Json d))) = Some [placeholder]"
  by (simp add: updateAppList_settle_ok updateStatus_def get_innerHTML_apiFetch get_innerHTML_set_innerHTML)

lemma card_names_without_inherited:
  assumes inh: "set (order_or_empty d) \<inter> set Object_prototype = {}"
    and plain: "\<forall>appName \<in> set (order_or_empty d). list_all plain_char appName"
  shows "map_option card_names (updateAppList_settle st (Response True (Json d)))
     = Some (spec_card_names (apps_or_empty d) (order_or_empty d))"
proof -
  have "(get (apps_or_empty d) n \<noteq> Missing) = (map_of (apps_or_empty d) n \<noteq> None)"
    if "n \<in> set (order_or_empty d)" for n
    using that inh by (auto simp: get_def split: option.splits)
  then have f: "filter (\<lambda>n. get (apps_or_empty d) n \<noteq> Missing) (order_or_empty d)
      = filter (\<lambda>n. map_of (apps_or_empty d) n \<noteq> None) (order_or_empty d)"
    by (intro filter_cong refl)
  have p: "\<forall>appName \<in> set (order_or_empty d).
      get (apps_or_empty d) appName \<noteq> Missing \<longrightarrow> dataset_appName appName \<noteq> None"
    using plain by (simp add: dataset_appName_plain)
  have "List.map_filter dataset_appName (filter (\<lambda>n. map_of (apps_or_empty d) n \<noteq> None) (order_or_empty d))
      = filter (\<lambda>n. map_of (apps_or_empty d) n \<noteq> None) (order_or_empty d)"
    by (rule map_filter_dataset_appName_plain) (use plain in auto)
  then show ?thesis
    using card_names_updateAppList_settle [OF p, of st] f by (simp add: spec_card_names_def)
qed

subsection \<open>The calls of apiFetch keep the list\<close>

lemma frame_apiFetch:
  "heap (apiFetch st endpoint opts) = heap st \<and> childNodes (apiFetch st endpoint opts) = childNodes st
   \<and> hostname (apiFetch st endpoint opts) = hostname st
   \<and> SECRET_PATH (apiFetch st endpoint opts) = SECRET_PATH st
   \<and> draggedItem (apiFetch st endpoint opts) = draggedItem st
   \<and> console (apiFetch st endpoint opts) = console st"
  by (simp add: apiFetch_def)

lemma card_at_apiFetch: "card_at (apiFetch st endpoint opts) r = card_at st r"
  by (simp add: card_at_def frame_apiFetch)

lemma getElementById_apiFetch:
  "getElementById_card (apiFetch st endpoint opts) s = getElementById_card st s"
  by (rule getElementById_card_cong) (simp_all add: frame_apiFetch card_at_apiFetch)

lemma getElementById_page_ab: "getElementById_card page_ab (js ''a-b'') = Some 4"
  by (simp add: getElementById_card_def childNodes_page_ab cards_page_ab card_template_def)

lemma sanitize_examples:
  "sanitizeForId (js ''a.b'') = js ''a-b'' \<and> sanitizeForId (js ''a b'') = js ''a-b''"
  by (simp add: js_def sanitizeForId_def id_char_def)

subsection \<open>Polls and drops on the page with two cards\<close>

lemmas poll_eval = updateStatus_settle_ok ok_status_def card_at_updateStatus_each
  getElementById_updateStatus_each getElementById_apiFetch_settle getElementById_apiFetch
  card_at_apiFetch_settle card_at_apiFetch updateStatus_def sanitize_examples
  getElementById_page_ab cards_page_ab frame_updateStatus_each apiFetch_settle_dom
  frame_apiFetch env_page_ab

lemma cards_page_polled:
  "card_at page_polled 4
     = Some (patch_card (js ''localhost'') \<lparr>running = True, port = Num 8080\<rparr> (card_template (js ''a-b'') (js ''a.b'')))
   \<and> childNodes page_polled = [3, 4, 5, 6, 7]"
  by (simp add: page_polled_def poll_eval a_b_running_def frame_fold_updateStatus_each
        childNodes_page_ab)

lemma childNodes_dropped: "childNodes (drop_listener page_dragging (Some 6)) = [3, 6, 5, 4, 7]"
proof -
  have "drop_listener page_dragging (Some 6) =
     apiFetch ((fold remove_drag_over (childNodes page_dragging) page_dragging)
         \<lparr>childNodes := map (exchange 4 6) (childNodes page_dragging)\<rparr>)
       (js ''/'' @ SECRET_PATH page_dragging @ js ''/save-order'')
       (Post_order (names_of page_dragging (map (exchange 4 6) (childNodes page_dragging))))"
    by (rule drop_result) (simp_all add: page_dragging_def childNodes_page_ab)
  then show ?thesis
    by (simp add: frame_apiFetch page_dragging_def childNodes_page_ab exchange_def)
qed

section \<open>The claims\<close>

subsection \<open>C1: a drop exchanges the dragged card and the target\<close>

text \<open>
  C1: when the dragged card \<open>x\<close> and a different card \<open>y\<close> of the list are given, the
  drop handler leaves the child nodes of the list with exactly \<open>x\<close> and \<open>y\<close> exchanged;
  so are the cards among them, the other cards keep their order, and the handler posts
  to save-order the \<open>dataset.appName\<close> of the cards read in the new sequence.
\<close>

theorem drop_exchanges_dragged_and_target:
  assumes dist: "distinct (childNodes st)" and drag: "draggedItem st = Some x"
    and x: "x \<in> set (childNodes st)" and y: "y \<in> set (childNodes st)" and neq: "x \<noteq> y"
    and cx: "card_at st x \<noteq> None" and cy: "card_at st y \<noteq> None"
  shows "childNodes (drop_listener st (Some y)) = map (exchange x y) (childNodes st)
    \<and> querySelectorAll_card (drop_listener st (Some y)) = map (exchange x y) (querySelectorAll_card st)
    \<and> filter (\<lambda>r. r \<noteq> x \<and> r \<noteq> y) (querySelectorAll_card (drop_listener st (Some y)))
        = filter (\<lambda>r. r \<noteq> x \<and> r \<noteq> y) (querySelectorAll_card st)
    \<and> fetches (drop_listener st (Some y)) = fetches st @
         [(js ''/'' @ SECRET_PATH st @ js ''/save-order'', Post_order (card_names (drop_listener st (Some y))))]
    \<and> card_names (drop_listener st (Some y)) = names_of st (map (exchange x y) (childNodes st))"
proof -
  let ?st1 = "fold remove_drag_over (childNodes st) st"
  let ?cs = "map (exchange x y) (childNodes st)"
  let ?url = "js ''/'' @ SECRET_PATH st @ js ''/save-order''"
  have res: "drop_listener st (Some y) = apiFetch (?st1\<lparr>childNodes := ?cs\<rparr>) ?url (Post_order (names_of st ?cs))"
    by (rule drop_result [OF dist drag x y neq])
  have ch: "childNodes (drop_listener st (Some y)) = ?cs"
    by (simp add: res apiFetch_def)
  have card: "\<And>r. (card_at (drop_listener st (Some y)) r = None) = (card_at st r = None)"
    by (simp add: res apiFetch_def card_at_def)
       (simp add: card_at_def [symmetric] is_card_fold_remove_drag_over)
  have names: "card_names (drop_listener st (Some y)) = names_of st ?cs"
    unfolding card_names_def ch
    by (rule names_of_cong) (simp add: res apiFetch_def card_at_def,
        simp add: card_at_def [symmetric] name_fold_remove_drag_over)
  have q: "querySelectorAll_card (drop_listener st (Some y)) = map (exchange x y) (querySelectorAll_card st)"
    unfolding querySelectorAll_card_def ch card
    using cx cy by (rule filter_exchange_cards)
  have fe: "fetches (drop_listener st (Some y)) = fetches st @ [(?url, Post_order (card_names (drop_listener st (Some y))))]"
    unfolding names by (simp add: res apiFetch_def frame_fold_remove_drag_over)
  show ?thesis using ch q fe names by (simp add: filter_exchange_others)
qed

text \<open>
  C1, witness: dragging the card of \<open>a.b\<close> onto the card of \<open>a b\<close>.
\<close>

theorem drop_exchanges_dragged_and_target_witness:
  "distinct (childNodes page_dragging) \<and> draggedItem page_dragging = Some 4
   \<and> 4 \<in> set (childNodes page_dragging) \<and> 6 \<in> set (childNodes page_dragging) \<and> (4::nat) \<noteq> 6
   \<and> card_at page_dragging 4 \<noteq> None \<and> card_at page_dragging 6 \<noteq> None
   \<and> childNodes (drop_listener page_dragging (Some 6)) = [3, 6, 5, 4, 7]
   \<and> card_names (drop_listener page_dragging (Some 6)) = [js ''a b'', js ''a.b'']
   \<and> fetches (drop_listener page_dragging (Some 6)) = fetches page_dragging @
        [(js ''/s3cret/save-order'', Post_order [js ''a b'', js ''a.b''])]"
proof -
  have ch: "childNodes page_dragging = [3, 4, 5, 6, 7]"
    by (simp add: page_dragging_def childNodes_page_ab)
  have ca: "\<And>r. card_at page_dragging r = card_at page_ab r"
    by (simp add: page_dragging_def card_at_def)
  have h: "distinct (childNodes page_dragging)" "draggedItem page_dragging = Some 4"
    "4 \<in> set (childNodes page_dragging)" "6 \<in> set (childNodes page_dragging)" "(4::nat) \<noteq> 6"
    "card_at page_dragging 4 \<noteq> None" "card_at page_dragging 6 \<noteq> None"
    by (simp_all add: ch ca cards_page_ab) (simp add: page_dragging_def)
  have sp: "SECRET_PATH page_dragging = js ''s3cret''"
    by (simp add: page_dragging_def env_page_ab)
  have n: "names_of page_dragging [3, 6, 5, 4, 7] = [js ''a b'', js ''a.b'']"
    by (simp add: names_of_def List.map_filter_def ca cards_page_ab card_template_def)
  show ?thesis
    using h drop_exchanges_dragged_and_target [OF h] n
    by (simp add: ch exchange_def sp) (simp add: js_def)
qed

subsection \<open>C2: the rendered list\<close>

text \<open>
  C2: the cards rendered are the names of \<open>order\<close> present in the app map. For the
  response \<open>{apps: {}, order: ["constructor"]}\<close> the lookup \<open>apps["constructor"]\<close> finds
  the property inherited from \<open>Object.prototype\<close>, which is truthy, and a card is rendered
  for a name that the app map does not have.
\<close>

theorem inherited_name_is_rendered:
  "map_option card_names (updateAppList_settle (updateAppList page0) (ok_apps [] [js ''constructor'']))
     = Some [js ''constructor'']
   \<and> spec_card_names [] [js ''constructor''] = []"
proof -
  let ?d = "\<lparr>data_message = Undefined, data_error = Undefined,
     content = \<lparr>data_apps = Some [], data_order = Some [js ''constructor'']\<rparr>\<rparr>"
  have n: "dataset_appName (js ''constructor'') = Some (js ''constructor'')"
    by (rule dataset_appName_plain) (simp add: js_def plain_char_def)
  have g: "get [] (js ''constructor'') = (Inherited :: app_info property)"
    by (simp add: get_def Object_prototype_def js_def)
  have "\<forall>appName \<in> set (order_or_empty ?d).
      get (apps_or_empty ?d) appName \<noteq> Missing \<longrightarrow> dataset_appName appName \<noteq> None"
    by (simp add: order_or_empty_def n)
  then have "map_option card_names (updateAppList_settle (updateAppList page0) (Response True (Json ?d)))
      = Some (List.map_filter dataset_appName
         (filter (\<lambda>appName. get (apps_or_empty ?d) appName \<noteq> Missing) (order_or_empty ?d)))"
    by (rule card_names_updateAppList_settle)
  then show ?thesis
    by (simp add: ok_apps_def order_or_empty_def apps_or_empty_def g n List.map_filter_def
          spec_card_names_def)
qed

subsection \<open>C3: the card of an app in the status response\<close>

text \<open>
  C3 (as stated): every app in the response with a rendered card gets its link and
  status set from its own entry. With the cards of \<open>a.b\<close> and \<open>a b\<close> rendered and a
  response that reports \<open>a.b\<close> running on port 8080 and \<open>a b\<close> stopped, both entries
  find the card of \<open>a.b\<close>, which ends stopped with a non-interactive link to \<open>#\<close>.
\<close>

theorem colliding_names_share_a_card:
  "getElementById_card (updateStatus page_ab) (sanitizeForId (js ''a.b'')) = Some 4
   \<and> map_option data_app_name (card_at (updateStatus page_ab) 4) = Some (js ''a.b'')
   \<and> map_option link_href (card_at (updateStatus_settle (updateStatus page_ab) (ok_status a_b_both)) 4)
       = Some (js ''#'')
   \<and> map_option link_pointerEvents (card_at (updateStatus_settle (updateStatus page_ab) (ok_status a_b_both)) 4)
       = Some PE_none
   \<and> map_option status_textContent (card_at (updateStatus_settle (updateStatus page_ab) (ok_status a_b_both)) 4)
       = Some (js ''Stop'')"
  by (simp add: poll_eval a_b_both_def) (simp add: patch_card_def card_template_def)

text \<open>
  C3 (amended): for an entry of a successful status response whose sanitized name is
  shared by no other key of the response, and for which \<open>getElementById\<close> finds a card,
  that card gets the body of the \<open>forEach\<close>: running with a truthy port, the link goes
  to \<open>http://<hostname>:<port>\<close> and is clickable; running with a falsy port, the link
  is non-interactive; not running, the link is non-interactive and the status text is
  \<open>Stop\<close>.
\<close>

theorem status_applied_to_located_card:
  assumes ent: "(k, a) \<in> set (content d)"
    and dist: "distinct (map fst (content d))"
    and uniq: "\<forall>k' \<in> set (map fst (content d)). k' \<noteq> k \<longrightarrow> sanitizeForId k' \<noteq> sanitizeForId k"
    and found: "getElementById_card st (sanitizeForId k) = Some r"
    and card: "card_at st r = Some c"
  shows "card_at (updateStatus_settle st (Response True (Json d))) r = Some (patch_card (hostname st) a c)
    \<and> (running a \<and> truthy (port a) \<longrightarrow>
          link_href (patch_card (hostname st) a c) = js ''http://'' @ hostname st @ js '':'' @ toString (port a)
          \<and> link_pointerEvents (patch_card (hostname st) a c) = PE_auto
          \<and> link_cursor (patch_card (hostname st) a c) = Cursor_pointer)
    \<and> (running a \<and> \<not> truthy (port a) \<longrightarrow>
          link_pointerEvents (patch_card (hostname st) a c) = PE_none
          \<and> link_cursor (patch_card (hostname st) a c) = Cursor_default)
    \<and> (\<not> running a \<longrightarrow>
          link_pointerEvents (patch_card (hostname st) a c) = PE_none
          \<and> link_cursor (patch_card (hostname st) a c) = Cursor_default
          \<and> status_textContent (patch_card (hostname st) a c) = js ''Stop''
          \<and> status_className (patch_card (hostname st) a c) = Status_stopped)"
proof -
  let ?st1 = "snd (apiFetch_settle st (Response True (Json d)))"
  obtain es1 es2 where es: "content d = es1 @ (k, a) # es2"
    using ent by (meson split_list)
  have others: "sanitizeForId k' \<noteq> sanitizeForId k" if "k' \<in> set (map fst (es1 @ es2))" for k'
  proof -
    have "k' \<noteq> k" using dist that es by auto
    moreover have "k' \<in> set (map fst (content d))" using that es by auto
    ultimately show ?thesis using uniq by blast
  qed
  have "card_at (fold updateStatus_each (es1 @ (k, a) # es2) ?st1) r = Some (patch_card (hostname ?st1) a c)"
    by (rule card_at_fold_updateStatus_each_hit)
       (simp_all add: getElementById_apiFetch_settle found card_at_apiFetch_settle card others)
  then have "card_at (updateStatus_settle st (Response True (Json d))) r = Some (patch_card (hostname st) a c)"
    by (simp add: updateStatus_settle_ok es apiFetch_settle_dom)
  then show ?thesis by (simp add: patch_card_def)
qed

text \<open>
  C3, witness: the poll that reports only \<open>a.b\<close>, running on port 8080.
\<close>

theorem status_applied_to_located_card_witness:
  "getElementById_card (updateStatus page_ab) (sanitizeForId (js ''a.b'')) = Some 4
   \<and> map_option link_href (card_at page_polled 4) = Some (js ''http://localhost:8080'')
   \<and> map_option link_pointerEvents (card_at page_polled 4) = Some PE_auto"
proof -
  let ?d = "\<lparr>data_message = Undefined, data_error = Undefined, content = a_b_running\<rparr>"
  let ?a = "\<lparr>running = True, port = Num 8080\<rparr>"
  have found: "getElementById_card (updateStatus page_ab) (sanitizeForId (js ''a.b'')) = Some 4"
    by (simp add: poll_eval)
  have card: "card_at (updateStatus page_ab) 4 = Some (card_template (js ''a-b'') (js ''a.b''))"
    by (simp add: poll_eval)
  have ent: "(js ''a.b'', ?a) \<in> set (content ?d)" and dist: "distinct (map fst (content ?d))"
    and uniq: "\<forall>k' \<in> set (map fst (content ?d)). k' \<noteq> js ''a.b''
        \<longrightarrow> sanitizeForId k' \<noteq> sanitizeForId (js ''a.b'')"
    by (simp_all add: a_b_running_def)
  have h: "hostname (updateStatus page_ab) = js ''localhost''"
    by (simp add: poll_eval)
  show ?thesis
    using found status_applied_to_located_card [OF ent dist uniq found card]
    by (simp add: page_polled_def ok_status_def h) (simp add: js_def digits.simps)
qed

subsection \<open>C4: a failed status poll\<close>

text \<open>
  C4: when the status fetch fails (network failure, body that is not JSON, body
  \<open>null\<close>, non-2xx response), \<open>updateStatus\<close> keeps the list of nodes and sets the status element of
  every card in the list to the text \<open>Unknown\<close> and the class \<open>status status-unknown\<close>,
  whatever it showed before; nodes outside the list are untouched.
\<close>

theorem failed_status_fetch_sets_all_unknown:
  assumes "outcome = Network_failure m \<or> outcome = Response ok (Not_json m)
     \<or> outcome = Response ok (Json_null m) \<or> outcome = Response False (Json d)"
  shows "childNodes (updateStatus_settle st outcome) = childNodes st
    \<and> (\<forall>r. card_at (updateStatus_settle st outcome) r =
          (if r \<in> set (childNodes st)
           then map_option (\<lambda>c. c\<lparr>status_textContent := js ''Unknown'', status_className := Status_unknown\<rparr>) (card_at st r)
           else card_at st r))"
proof -
  obtain e where f: "apiFetch_settle st outcome = apiFetch_catch st e"
    using assms by (auto simp: apiFetch_settle_def)
  let ?st2 = "console_error (snd (apiFetch_catch st e :: (js_error + status_content data) \<times> state)) (js ''Failed to fetch status:'') e"
  have s: "updateStatus_settle st outcome = fold set_unknown (querySelectorAll_card ?st2) ?st2"
    using f by (simp add: updateStatus_settle_def apiFetch_catch_def Let_def)
  have c: "childNodes ?st2 = childNodes st" and h: "\<And>r. card_at ?st2 r = card_at st r"
    by (simp_all add: console_error_def apiFetch_catch_def card_at_def)
  have q: "\<And>r. r \<in> set (querySelectorAll_card ?st2) = (r \<in> set (childNodes st) \<and> card_at st r \<noteq> None)"
    using c h by (simp add: querySelectorAll_card_def)
  show ?thesis
    unfolding s using q
    by (auto simp: childNodes_fold_set_unknown c card_at_fold_set_unknown h)
qed

text \<open>
  C4, witness: on the page where \<open>a.b\<close> shows \<open>Run\<close>, a poll that fails with a network
  failure leaves the card showing \<open>Unknown\<close>.
\<close>

theorem failed_status_fetch_sets_all_unknown_witness:
  "map_option status_textContent (card_at page_polled 4) = Some (js ''Run'')
   \<and> map_option status_textContent
         (card_at (updateStatus_settle (updateStatus page_polled) (Network_failure (js ''Failed to fetch''))) 4)
       = Some (js ''Unknown'')
   \<and> map_option (\<lambda>c. className (status_className c))
         (card_at (updateStatus_settle (updateStatus page_polled) (Network_failure (js ''Failed to fetch''))) 4)
       = Some (js ''status status-unknown'')"
proof -
  let ?o = "Network_failure (js ''Failed to fetch'') :: status_content fetch_outcome"
  have o: "?o = Network_failure (js ''Failed to fetch'') \<or> ?o = Response True (Not_json (js ''Failed to fetch''))
     \<or> ?o = Response True (Json_null (js ''Failed to fetch''))
     \<or> ?o = Response False (Json \<lparr>data_message = Undefined, data_error = Undefined, content = []\<rparr>)"
    by simp
  show ?thesis
    using failed_status_fetch_sets_all_unknown [OF o, of "updateStatus page_polled"]
    by (simp add: updateStatus_def frame_apiFetch card_at_apiFetch cards_page_polled patch_card_def)
qed

subsection \<open>C5: sanitizeForId on names that differ outside the class\<close>

text \<open>
  C5 (as stated): two distinct names that differ only in characters outside
  \<open>[A-Za-z0-9-_]\<close> get distinct identifiers. The names \<open>a.b\<close> and \<open>a b\<close> are distinct,
  differ only in such a character, and both become \<open>a-b\<close>.
\<close>

theorem sanitizeForId_collision:
  "js ''a.b'' \<noteq> js ''a b'' \<and> differ_only_outside (js ''a.b'') (js ''a b'')
   \<and> sanitizeForId (js ''a.b'') = sanitizeForId (js ''a b'')"
  by (simp add: js_def differ_only_outside_def sanitizeForId_def id_char_def)

text \<open>
  C5 (amended): \<open>sanitizeForId\<close> keeps the length and every character of the class and
  writes a hyphen for every other one, so two names get the same identifier exactly when
  they have the same length and at every position either agree or both hold a hyphen or a
  character outside the class.
\<close>

theorem sanitizeForId_eq_iff:
  "(sanitizeForId s = sanitizeForId t) = list_all2 (\<lambda>c d. c = d \<or> (hyphened c \<and> hyphened d)) s t"
proof (induction s arbitrary: t)
  case Nil
  show ?case by (simp add: sanitizeForId_def)
next
  case (Cons c s)
  show ?case
  proof (cases t)
    case Nil
    then show ?thesis by (simp add: sanitizeForId_def)
  next
    case (Cons d t')
    have "(sanitizeForId (c # s) = sanitizeForId (d # t'))
        = ((c = d \<or> (hyphened c \<and> hyphened d)) \<and> sanitizeForId s = sanitizeForId t')"
      using sanitize_char_eq [of c d] by (simp add: sanitizeForId_def)
    then show ?thesis using Cons Cons.IH [of t'] by simp
  qed
qed

text \<open>
  C5, witness: \<open>a.b\<close> and \<open>a-b\<close> get the same identifier, a full stop against a hyphen;
  \<open>a.b\<close> and \<open>a_b\<close> get different ones, since the underscore is kept.
\<close>

theorem sanitizeForId_eq_iff_witness:
  "list_all2 (\<lambda>c d. c = d \<or> (hyphened c \<and> hyphened d)) (js ''a.b'') (js ''a-b'')
   \<and> sanitizeForId (js ''a.b'') = sanitizeForId (js ''a-b'')
   \<and> \<not> list_all2 (\<lambda>c d. c = d \<or> (hyphened c \<and> hyphened d)) (js ''a.b'') (js ''a_b'')
   \<and> sanitizeForId (js ''a.b'') \<noteq> sanitizeForId (js ''a_b'')"
proof -
  have same: "list_all2 (\<lambda>c d. c = d \<or> (hyphened c \<and> hyphened d)) (js ''a.b'') (js ''a-b'')"
    and other: "\<not> list_all2 (\<lambda>c d. c = d \<or> (hyphened c \<and> hyphened d)) (js ''a.b'') (js ''a_b'')"
    by (simp_all add: js_def hyphened_def id_char_def)
  show ?thesis
    using same other sanitizeForId_eq_iff [of "js ''a.b''" "js ''a-b''"]
      sanitizeForId_eq_iff [of "js ''a.b''" "js ''a_b''"]
    by blast
qed

subsection \<open>C6: a failed save of the order\<close>

text \<open>
  C6 (as stated): after a failed save the list is loaded again and the rendered order
  equals the order of the answer of \<open>GET /apps\<close>. For the answer with the one app
  \<open>a"b\<close> the template gives \<open>data-app-name="a"b"\<close>, the parser ends the value at the
  quote, and the rendered card has the name \<open>a\<close>.
\<close>

theorem quoted_name_is_cut:
  "map_option card_names (updateAppList_settle
       (drop_listener_settle (drop_listener page_dragging (Some 6)) (Network_failure (js ''Failed to fetch'')))
       (ok_apps [(a_quote_b, bat)] [a_quote_b]))
     = Some [js ''a'']
   \<and> [js ''a''] \<noteq> [a_quote_b]"
proof -
  let ?d = "\<lparr>data_message = Undefined, data_error = Undefined,
     content = \<lparr>data_apps = Some [(a_quote_b, bat)], data_order = Some [a_quote_b]\<rparr>\<rparr>"
  have n: "dataset_appName a_quote_b = Some (js ''a'')"
    by (simp add: dataset_appName_def a_quote_b_def js_def plain_char_def alnum_def)
  have g: "get [(a_quote_b, bat)] a_quote_b = Own bat"
    by (simp add: get_def)
  have "\<forall>appName \<in> set (order_or_empty ?d).
      get (apps_or_empty ?d) appName \<noteq> Missing \<longrightarrow> dataset_appName appName \<noteq> None"
    by (simp add: order_or_empty_def n)
  then have "map_option card_names (updateAppList_settle
        (drop_listener_settle (drop_listener page_dragging (Some 6)) (Network_failure (js ''Failed to fetch'')))
        (Response True (Json ?d)))
      = Some (List.map_filter dataset_appName
         (filter (\<lambda>appName. get (apps_or_empty ?d) appName \<noteq> Missing) (order_or_empty ?d)))"
    by (rule card_names_updateAppList_settle)
  then show ?thesis
    by (simp add: ok_apps_def order_or_empty_def apps_or_empty_def g n List.map_filter_def)
       (simp add: a_quote_b_def js_def)
qed

text \<open>
  C6 (amended): when the save-order call fails (network failure, body that is not JSON,
  body \<open>null\<close>, non-2xx response), the \<open>catch\<close> of the drop handler leaves the child nodes
  and the store as the drop left them (no rollback) and calls \<open>GET /apps\<close>; when that
  call answers and the names of its order that the app map answers for have no double
  quote, ampersand, less-than sign, NUL or carriage return, the cards are those names in
  the sequence of the order, whatever the page looked like, and exactly the order when
  every name of it is a key of the app map.
\<close>

theorem failed_save_order_reloads:
  assumes fail: "outcome = Network_failure m \<or> outcome = Response ok (Not_json m)
     \<or> outcome = Response ok (Json_null m) \<or> outcome = Response False (Json e)"
    and plain: "\<forall>appName \<in> set (order_or_empty d).
        get (apps_or_empty d) appName \<noteq> Missing \<longrightarrow> list_all plain_char appName"
  shows "childNodes (drop_listener_settle st outcome) = childNodes st
    \<and> heap (drop_listener_settle st outcome) = heap st
    \<and> fetches (drop_listener_settle st outcome) = fetches st @ [(js ''/apps'', No_options)]
    \<and> map_option card_names (updateAppList_settle st2 (Response True (Json d)))
        = Some (filter (\<lambda>appName. get (apps_or_empty d) appName \<noteq> Missing) (order_or_empty d))
    \<and> ((\<forall>appName \<in> set (order_or_empty d). map_of (apps_or_empty d) appName \<noteq> None)
        \<longrightarrow> map_option card_names (updateAppList_settle st2 (Response True (Json d)))
            = Some (order_or_empty d))"
proof -
  obtain err where f: "apiFetch_settle st outcome = apiFetch_catch st err"
    using fail by (auto simp: apiFetch_settle_def)
  have s: "drop_listener_settle st outcome
      = updateAppList (console_error (snd (apiFetch_catch st err :: (js_error + unit data) \<times> state))
          (js ''Failed to save new order:'') err)"
    using f by (simp add: drop_listener_settle_def apiFetch_catch_def)
  have a: "childNodes (drop_listener_settle st outcome) = childNodes st
    \<and> heap (drop_listener_settle st outcome) = heap st
    \<and> fetches (drop_listener_settle st outcome) = fetches st @ [(js ''/apps'', No_options)]"
    unfolding s by (simp add: updateAppList_def apiFetch_def console_error_def apiFetch_catch_def)
  let ?present = "filter (\<lambda>appName. get (apps_or_empty d) appName \<noteq> Missing) (order_or_empty d)"
  have p: "\<forall>appName \<in> set (order_or_empty d).
      get (apps_or_empty d) appName \<noteq> Missing \<longrightarrow> dataset_appName appName \<noteq> None"
    using plain by (simp add: dataset_appName_plain)
  have "\<forall>appName \<in> set ?present. list_all plain_char appName"
    using plain by simp
  then have "List.map_filter dataset_appName ?present = ?present"
    by (rule map_filter_dataset_appName_plain)
  then have c: "map_option card_names (updateAppList_settle st2 (Response True (Json d))) = Some ?present"
    using card_names_updateAppList_settle [OF p, of st2] by simp
  have b: "?present = order_or_empty d"
    if all: "\<forall>appName \<in> set (order_or_empty d). map_of (apps_or_empty d) appName \<noteq> None"
  proof -
    have "get (apps_or_empty d) n \<noteq> Missing" if "n \<in> set (order_or_empty d)" for n
      using that all by (auto simp: get_def split: option.splits)
    then show ?thesis by (simp add: filter_id_conv)
  qed
  have c2: "map_option card_names (updateAppList_settle st2 (Response True (Json d)))
      = Some (order_or_empty d)"
    if "\<forall>appName \<in> set (order_or_empty d). map_of (apps_or_empty d) appName \<noteq> None"
    using b [OF that] c by (simp only:)
  show ?thesis using a c c2 by blast
qed

text \<open>
  C6, witness: after the exchange of \<open>a.b\<close> and \<open>a b\<close> the save fails; the nodes stay
  exchanged, and the answer of \<open>GET /apps\<close> with the order \<open>a.b\<close>, \<open>a b\<close> renders that order.
\<close>

theorem failed_save_order_reloads_witness:
  "childNodes (drop_listener_settle (drop_listener page_dragging (Some 6)) (Network_failure (js ''Failed to fetch'')))
     = [3, 6, 5, 4, 7]
   \<and> map_option card_names (updateAppList_settle
         (drop_listener_settle (drop_listener page_dragging (Some 6)) (Network_failure (js ''Failed to fetch'')))
         (ok_apps [(js ''a.b'', bat), (js ''a b'', bat)] [js ''a.b'', js ''a b'']))
     = Some [js ''a.b'', js ''a b'']"
proof -
  let ?o = "Network_failure (js ''Failed to fetch'') :: unit fetch_outcome"
  let ?d = "\<lparr>data_message = Undefined, data_error = Undefined,
     content = \<lparr>data_apps = Some [(js ''a.b'', bat), (js ''a b'', bat)], data_order = Some [js ''a.b'', js ''a b'']\<rparr>\<rparr>"
  have o: "?o = Network_failure (js ''Failed to fetch'') \<or> ?o = Response True (Not_json (js ''Failed to fetch''))
     \<or> ?o = Response True (Json_null (js ''Failed to fetch''))
     \<or> ?o = Response False (Json \<lparr>data_message = Undefined, data_error = Undefined, content = ()\<rparr>)"
    by simp
  have oe: "order_or_empty ?d = [js ''a.b'', js ''a b'']"
    by (simp add: order_or_empty_def)
  have plain: "\<forall>appName \<in> set (order_or_empty ?d).
      get (apps_or_empty ?d) appName \<noteq> Missing \<longrightarrow> list_all plain_char appName"
    by (simp add: oe) (simp add: js_def plain_char_def)
  have all: "\<forall>appName \<in> set (order_or_empty ?d). map_of (apps_or_empty ?d) appName \<noteq> None"
    by (simp add: order_or_empty_def apps_or_empty_def)
  note t = failed_save_order_reloads [OF o plain, of "drop_listener page_dragging (Some 6)"
        "drop_listener_settle (drop_listener page_dragging (Some 6)) ?o"]
  have c1: "childNodes (drop_listener_settle (drop_listener page_dragging (Some 6)) ?o)
      = childNodes (drop_listener page_dragging (Some 6))"
    using t by (rule conjunct1)
  have c5: "map_option card_names (updateAppList_settle
        (drop_listener_settle (drop_listener page_dragging (Some 6)) ?o) (Response True (Json ?d)))
      = Some (order_or_empty ?d)"
    using t all by blast
  show ?thesis using c1 c5 by (simp add: childNodes_dropped ok_apps_def oe)
qed

subsection \<open>C7: the failures of apiFetch\<close>

text \<open>
  C7 (as stated): on a non-2xx response the thrown error carries the server-provided
  \<open>error\<close> message when present and otherwise the fixed generic message. A non-2xx
  response whose body is not JSON (an HTML error page) makes \<open>response.json()\<close> reject
  before \<open>response.ok\<close> is read, and the error thrown carries the parser's message.
\<close>

theorem apiFetch_parser_message:
  "(case fst (apiFetch_settle page0
       (Response False (Not_json (js ''Unexpected token < in JSON at position 0'')) :: unit fetch_outcome)) of
      Inl e \<Rightarrow> message e | Inr d \<Rightarrow> [])
   \<noteq> spec_failure_message (Not_json (js ''Unexpected token < in JSON at position 0'') :: unit body)"
  by (simp add: apiFetch_settle_def apiFetch_catch_def spec_failure_message_def js_def)

text \<open>
  C7 (amended): a network failure, a body that is not JSON (whatever the status), a
  body that is \<open>null\<close> (whatever the status) and a non-2xx response with any other JSON
  body all pass through the one \<open>catch\<close> block of \<open>apiFetch\<close>, which shows
  \<open>Error: <message>\<close> in the notice and throws the error again. For a non-2xx response
  whose body is JSON and not \<open>null\<close> the error carries the \<open>error\<close> value of the body,
  converted to a string, when that value is truthy (a non-empty string), and otherwise
  the fixed generic message; for a body that is not JSON it is the parser's error, and
  for the body \<open>null\<close> the \<open>TypeError\<close> of reading a property of \<open>null\<close>. A 2xx response
  with a JSON body other than \<open>null\<close> returns the data.
\<close>

theorem apiFetch_failures:
  "apiFetch_settle st (Network_failure m) = apiFetch_catch st (TypeError m)
   \<and> apiFetch_settle st (Response ok (Not_json m)) = apiFetch_catch st (SyntaxError m)
   \<and> apiFetch_settle st (Response ok (Json_null m)) = apiFetch_catch st (TypeError m)
   \<and> apiFetch_settle st (Response False (Json d))
       = apiFetch_catch st (Error (if truthy (data_error d) then toString (data_error d)
                                   else js ''An unknown error occurred.''))
   \<and> fst (apiFetch_catch st e :: (js_error + 'a data) \<times> state) = Inl e
   \<and> snd (apiFetch_catch st e :: (js_error + 'a data) \<times> state)
       = st\<lparr>messageBox_textContent := js ''Error: '' @ message e, messageBox_display := Display_block\<rparr>
   \<and> fst (apiFetch_settle st (Response True (Json d))) = Inr d"
  by (simp add: apiFetch_settle_def apiFetch_catch_def or_else_def)

text \<open>
  C7, witness: a non-2xx response with \<open>{error: "No such app"}\<close> throws that message,
  one without \<open>error\<close> throws the generic message, one with the error \<open>["a", "b"]\<close>
  throws \<open>a,b\<close>, and the body \<open>null\<close> throws the \<open>TypeError\<close>.
\<close>

theorem apiFetch_failures_witness:
  "fst (apiFetch_settle page0 (Response False (Json \<lparr>data_message = Undefined,
       data_error = Str (js ''No such app''), content = ()\<rparr>))) = Inl (Error (js ''No such app''))
   \<and> fst (apiFetch_settle page0 (Response False (Json \<lparr>data_message = Undefined,
       data_error = Undefined, content = ()\<rparr>))) = Inl (Error (js ''An unknown error occurred.''))
   \<and> fst (apiFetch_settle page0 (Response False (Json \<lparr>data_message = Undefined,
       data_error = Arr [Str (js ''a''), Str (js ''b'')], content = ()\<rparr>))) = Inl (Error (js ''a,b''))
   \<and> fst (apiFetch_settle page0 (Response False (Json_null (js ''data is null'')) :: unit fetch_outcome))
       = Inl (TypeError (js ''data is null''))"
proof -
  let ?d1 = "\<lparr>data_message = Undefined, data_error = Str (js ''No such app''), content = ()\<rparr>"
  let ?d2 = "\<lparr>data_message = Undefined, data_error = Undefined, content = ()\<rparr>"
  let ?d3 = "\<lparr>data_message = Undefined, data_error = Arr [Str (js ''a''), Str (js ''b'')], content = ()\<rparr>"
  have "apiFetch_settle page0 (Response False (Json ?d1))
      = apiFetch_catch page0 (Error (if truthy (data_error ?d1) then toString (data_error ?d1)
                                   else js ''An unknown error occurred.''))"
    using apiFetch_failures [of page0 "[]" True ?d1 "Error []"] by blast
  moreover have "apiFetch_settle page0 (Response False (Json ?d2))
      = apiFetch_catch page0 (Error (if truthy (data_error ?d2) then toString (data_error ?d2)
                                   else js ''An unknown error occurred.''))"
    using apiFetch_failures [of page0 "[]" True ?d2 "Error []"] by blast
  moreover have "apiFetch_settle page0 (Response False (Json ?d3))
      = apiFetch_catch page0 (Error (if truthy (data_error ?d3) then toString (data_error ?d3)
                                   else js ''An unknown error occurred.''))"
    using apiFetch_failures [of page0 "[]" True ?d3 "Error []"] by blast
  moreover have "apiFetch_settle page0 (Response False (Json_null (js ''data is null'')) :: unit fetch_outcome)
      = apiFetch_catch page0 (TypeError (js ''data is null''))"
    using apiFetch_failures [of page0 "js ''data is null''" False ?d1 "Error []"] by blast
  ultimately show ?thesis by (simp add: apiFetch_catch_def js_def)
qed

subsection \<open>C8: a falsy port\<close>

text \<open>
  C8 (as stated): for every app reported running with a falsy port the poll leaves the
  link non-interactive. With the cards of \<open>a.b\<close> and \<open>a b\<close> rendered and a response that
  reports \<open>a.b\<close> running on port \<open>0\<close> and then \<open>a b\<close> running on port 8080, both entries
  find the card of \<open>a.b\<close>, which ends with a clickable link to port 8080.
\<close>

theorem falsy_port_card_ends_clickable:
  "getElementById_card (updateStatus page_ab) (sanitizeForId (js ''a.b'')) = Some 4
   \<and> map_option data_app_name (card_at (updateStatus page_ab) 4) = Some (js ''a.b'')
   \<and> \<not> truthy (Num 0)
   \<and> map_option link_pointerEvents
         (card_at (updateStatus_settle (updateStatus page_ab) (ok_status a_b_zero_then_a_space_b)) 4)
       = Some PE_auto
   \<and> map_option link_href
         (card_at (updateStatus_settle (updateStatus page_ab) (ok_status a_b_zero_then_a_space_b)) 4)
       = Some (js ''http://localhost:8080'')"
  by (simp add: poll_eval a_b_zero_then_a_space_b_def)
     (simp add: patch_card_def card_template_def js_def digits.simps)

text \<open>
  C8 (amended): for an app reported running in a successful status response whose
  \<open>port\<close> is falsy (0, the empty string, absent), the body of the \<open>forEach\<close> gives a card
  the running state with a non-interactive link (pointer events \<open>none\<close>, default cursor,
  \<open>href\<close> untouched); the whole poll gives the same page as with the port absent; and
  when \<open>getElementById\<close> finds a card for its sanitized name, and no later key of the
  response has the same sanitized name, that card of the page ends in the running state
  with a non-interactive link.
\<close>

theorem falsy_port_is_no_port:
  assumes "running a" and "\<not> truthy (port a)"
  shows "patch_card host a c
       = c\<lparr>status_textContent := js ''Run'', status_className := Status_running,
           start_disabled := True, stop_active := True,
           link_pointerEvents := PE_none, link_cursor := Cursor_default\<rparr>
    \<and> updateStatus_settle st (Response True (Json (d\<lparr>content := es1 @ (k, a) # es2\<rparr>)))
       = updateStatus_settle st (Response True (Json (d\<lparr>content := es1 @ (k, a\<lparr>port := Undefined\<rparr>) # es2\<rparr>)))
    \<and> (getElementById_card st (sanitizeForId k) = Some r
         \<and> (\<forall>k' \<in> set (map fst es2). sanitizeForId k' \<noteq> sanitizeForId k)
        \<longrightarrow> (\<exists>c'. card_at (updateStatus_settle st (Response True (Json (d\<lparr>content := es1 @ (k, a) # es2\<rparr>)))) r
                   = Some c'
              \<and> status_textContent c' = js ''Run'' \<and> status_className c' = Status_running
              \<and> start_disabled c' \<and> stop_active c'
              \<and> link_pointerEvents c' = PE_none \<and> link_cursor c' = Cursor_default))"
proof -
  have p: "patch_card h a c0
       = c0\<lparr>status_textContent := js ''Run'', status_className := Status_running,
           start_disabled := True, stop_active := True,
           link_pointerEvents := PE_none, link_cursor := Cursor_default\<rparr>" for h c0
    using assms by (simp add: patch_card_def)
  have e: "updateStatus_settle st (Response True (Json (d\<lparr>content := es1 @ (k, a) # es2\<rparr>)))
       = updateStatus_settle st (Response True (Json (d\<lparr>content := es1 @ (k, a\<lparr>port := Undefined\<rparr>) # es2\<rparr>)))"
    using updateStatus_each_falsy_port [OF assms]
    by (simp add: updateStatus_settle_def apiFetch_settle_def)
  have l: "\<exists>c'. card_at (updateStatus_settle st (Response True (Json (d\<lparr>content := es1 @ (k, a) # es2\<rparr>)))) r
                   = Some c'
              \<and> status_textContent c' = js ''Run'' \<and> status_className c' = Status_running
              \<and> start_disabled c' \<and> stop_active c'
              \<and> link_pointerEvents c' = PE_none \<and> link_cursor c' = Cursor_default"
    if found: "getElementById_card st (sanitizeForId k) = Some r"
      and later: "\<forall>k' \<in> set (map fst es2). sanitizeForId k' \<noteq> sanitizeForId k"
  proof -
    let ?d = "d\<lparr>content := es1 @ (k, a) # es2\<rparr>"
    let ?st1 = "snd (apiFetch_settle st (Response True (Json ?d)))"
    have f1: "getElementById_card ?st1 (sanitizeForId k) = Some r"
      by (simp add: getElementById_apiFetch_settle found)
    obtain c0 where "card_at (fold updateStatus_each (es1 @ (k, a) # es2) ?st1) r
        = Some (patch_card (hostname ?st1) a c0)"
      using card_at_fold_updateStatus_each_last [OF f1, of es2 es1 a] later by blast
    then have "card_at (updateStatus_settle st (Response True (Json ?d))) r
        = Some (patch_card (hostname ?st1) a c0)"
      by (simp add: updateStatus_settle_ok)
    then show ?thesis by (simp add: p)
  qed
  show ?thesis using p e l by blast
qed

text \<open>
  C8, witness: port \<open>0\<close> for \<open>a.b\<close> gives the same page as no port, and the card of
  \<open>a.b\<close> ends with a non-interactive link; the empty string and the absent port are
  falsy as well.
\<close>

theorem falsy_port_is_no_port_witness:
  "running \<lparr>running = True, port = Num 0\<rparr> \<and> \<not> truthy (port \<lparr>running = True, port = Num 0\<rparr>)
   \<and> getElementById_card (updateStatus page_ab) (sanitizeForId (js ''a.b'')) = Some 4
   \<and> updateStatus_settle (updateStatus page_ab) (ok_status [(js ''a.b'', \<lparr>running = True, port = Num 0\<rparr>)])
     = updateStatus_settle (updateStatus page_ab) (ok_status [(js ''a.b'', \<lparr>running = True, port = Undefined\<rparr>)])
   \<and> map_option link_pointerEvents
         (card_at (updateStatus_settle (updateStatus page_ab)
            (ok_status [(js ''a.b'', \<lparr>running = True, port = Num 0\<rparr>)])) 4)
       = Some PE_none
   \<and> \<not> truthy (Str []) \<and> \<not> truthy Undefined"
proof -
  let ?a = "\<lparr>running = True, port = Num 0\<rparr>"
  let ?d = "\<lparr>data_message = Undefined, data_error = Undefined, content = [] :: status_content\<rparr>"
  have h: "running ?a" "\<not> truthy (port ?a)" by simp_all
  have found: "getElementById_card (updateStatus page_ab) (sanitizeForId (js ''a.b'')) = Some 4"
    by (simp add: poll_eval)
  have later: "\<forall>k' \<in> set (map fst ([] :: status_content)). sanitizeForId k' \<noteq> sanitizeForId (js ''a.b'')"
    by simp
  note t = falsy_port_is_no_port [where a = ?a and host = "js ''localhost''"
        and c = "card_template (js ''a-b'') (js ''a.b'')" and st = "updateStatus page_ab"
        and d = ?d and ?es1.0 = "[]" and k = "js ''a.b''" and ?es2.0 = "[]" and r = 4, OF h]
  have eq: "updateStatus_settle (updateStatus page_ab) (Response True (Json (?d\<lparr>content := [] @ (js ''a.b'', ?a) # []\<rparr>)))
      = updateStatus_settle (updateStatus page_ab) (Response True (Json (?d\<lparr>content := [] @ (js ''a.b'', ?a\<lparr>port := Undefined\<rparr>) # []\<rparr>)))"
    using t by blast
  have "\<exists>c'. card_at (updateStatus_settle (updateStatus page_ab) (Response True (Json (?d\<lparr>content := [] @ (js ''a.b'', ?a) # []\<rparr>)))) 4
        = Some c' \<and> link_pointerEvents c' = PE_none"
    using t found later by blast
  then have pe: "map_option link_pointerEvents
      (card_at (updateStatus_settle (updateStatus page_ab) (Response True (Json (?d\<lparr>content := [] @ (js ''a.b'', ?a) # []\<rparr>)))) 4)
      = Some PE_none"
    by auto
  show ?thesis using h found eq pe by (simp add: ok_status_def)
qed

subsection \<open>C9: the cards that a status poll leaves alone\<close>

text \<open>
  C9 (as stated): a card whose app name is not a key of the response is unchanged. The
  response has the only key \<open>a b\<close>, and the card of \<open>a.b\<close> goes from \<open>Unknown\<close> to
  \<open>Run\<close>.
\<close>

theorem absent_name_card_is_patched:
  "js ''a.b'' \<notin> set (map fst a_space_b_running)
   \<and> map_option data_app_name (card_at (updateStatus page_ab) 4) = Some (js ''a.b'')
   \<and> map_option status_textContent (card_at (updateStatus page_ab) 4) = Some (js ''Unknown'')
   \<and> map_option status_textContent
         (card_at (updateStatus_settle (updateStatus page_ab) (ok_status a_space_b_running)) 4)
       = Some (js ''Run'')"
  by (simp add: poll_eval a_space_b_running_def) (simp add: patch_card_def card_template_def js_def)

text \<open>
  C9 (amended): a successful poll leaves unchanged every node that is not the card which
  \<open>getElementById\<close> finds for the sanitized name of some key of the response; it also
  keeps the list of nodes and the dragged item.
\<close>

theorem status_poll_frame:
  assumes "\<forall>k \<in> set (map fst (content d)). getElementById_card st (sanitizeForId k) \<noteq> Some r"
  shows "heap (updateStatus_settle st (Response True (Json d))) r = heap st r
    \<and> childNodes (updateStatus_settle st (Response True (Json d))) = childNodes st
    \<and> draggedItem (updateStatus_settle st (Response True (Json d))) = draggedItem st"
proof -
  let ?st1 = "snd (apiFetch_settle st (Response True (Json d)))"
  have "heap (fold updateStatus_each (content d) ?st1) r = heap ?st1 r"
  proof (rule heap_fold_updateStatus_each)
    fix k assume "k \<in> set (map fst (content d))"
    then have "getElementById_card st (sanitizeForId k) \<noteq> Some r" using assms by blast
    then show "getElementById_card ?st1 (sanitizeForId k) \<noteq> Some r"
      by (simp add: getElementById_apiFetch_settle)
  qed
  then show ?thesis
    by (simp add: updateStatus_settle_ok frame_fold_updateStatus_each apiFetch_settle_dom)
qed

text \<open>
  C9, witness: the poll that reports \<open>a.b\<close> leaves the second card as it was.
\<close>

theorem status_poll_frame_witness:
  "heap page_polled 6 = heap (updateStatus page_ab) 6
   \<and> childNodes page_polled = childNodes (updateStatus page_ab)
   \<and> draggedItem page_polled = draggedItem (updateStatus page_ab)"
proof -
  let ?d = "\<lparr>data_message = Undefined, data_error = Undefined, content = a_b_running\<rparr>"
  have "\<forall>k \<in> set (map fst (content ?d)).
      getElementById_card (updateStatus page_ab) (sanitizeForId k) \<noteq> Some 6"
    by (simp add: a_b_running_def poll_eval)
  then show ?thesis
    using status_poll_frame [of ?d "updateStatus page_ab" 6]
    by (simp add: page_polled_def ok_status_def)
qed

subsection \<open>C10: a declined deletion\<close>

text \<open>
  C10: when the user declines the confirmation prompt, \<open>deleteApp\<close> returns the page as
  it was: no request is added to the calls of \<open>fetch\<close>, the notice, the list and every
  other part of the state are unchanged. (When the user confirms, the delete request is
  issued.)
\<close>

theorem deleteApp_declined:
  "deleteApp st appName False = st
   \<and> fetches (deleteApp st appName True)
       = fetches st @ [(js ''/'' @ SECRET_PATH st @ js ''/delete/'' @ appName, Post)]"
  by (simp add: deleteApp_def apiFetch_def)

end
